theory Spec2Isabelle
  imports Main "HOL-Library.Sublist"
begin

section \<open>Python text primitives\<close>

text \<open>
  Python strings are modelled as \<^typ>\<open>string\<close>: a list of characters with code points
  0..255. The character classes below are Python's classes restricted to that range.
\<close>

abbreviation NL :: char where "NL \<equiv> CHR 0x0A"
abbreviation CR :: char where "CR \<equiv> CHR 0x0D"

text \<open>\<^verbatim>\<open>str.isspace\<close> on one character: TAB, LF, VT, FF, CR, FS, GS, RS, US, space, NEL, NBSP.\<close>

definition py_isspace :: "char \<Rightarrow> bool" where
  "py_isspace c \<longleftrightarrow> (of_char c :: nat) \<in> {9, 10, 11, 12, 13, 28, 29, 30, 31, 32, 133, 160}"

text \<open>\<^verbatim>\<open>s.lstrip()\<close>, \<^verbatim>\<open>s.rstrip()\<close>, \<^verbatim>\<open>s.strip()\<close> and \<^verbatim>\<open>s.rstrip(c)\<close> for a one-character argument.\<close>

definition lstrip :: "string \<Rightarrow> string" where
  "lstrip s = dropWhile py_isspace s"

definition rstrip :: "string \<Rightarrow> string" where
  "rstrip s = rev (dropWhile py_isspace (rev s))"

definition strip :: "string \<Rightarrow> string" where
  "strip s = lstrip (rstrip s)"

definition rstrip_chr :: "char \<Rightarrow> string \<Rightarrow> string" where
  "rstrip_chr c s = rev (dropWhile (\<lambda>x. x = c) (rev s))"

definition startswith :: "string \<Rightarrow> string \<Rightarrow> bool" where
  "startswith s p \<longleftrightarrow> take (length p) s = p"

definition endswith :: "string \<Rightarrow> string \<Rightarrow> bool" where
  "endswith s p \<longleftrightarrow> length p \<le> length s \<and> drop (length s - length p) s = p"

text \<open>\<^verbatim>\<open>str(n)\<close> for an integer: decimal digits, with a minus sign for negatives.\<close>

fun str_nat :: "nat \<Rightarrow> string" where
  "str_nat n = (if n < 10 then [char_of (48 + n)] else str_nat (n div 10) @ [char_of (48 + n mod 10)])"

declare str_nat.simps [simp del]

definition str_int :: "int \<Rightarrow> string" where
  "str_int i = (if i < 0 then CHR ''-'' # str_nat (nat (- i)) else str_nat (nat i))"

section \<open>Files in text mode\<close>

text \<open>
  A file system maps a path to the decoded text of a readable regular file.
  \<^verbatim>\<open>open(path, "r")\<close> reads with universal newlines: \<^verbatim>\<open>\r\n\<close> and a lone \<^verbatim>\<open>\r\<close>
  both arrive as \<^verbatim>\<open>\n\<close>. \<^verbatim>\<open>readlines\<close> cuts the text after every \<^verbatim>\<open>\n\<close>, keeping it.
  \<^verbatim>\<open>writelines\<close> writes the concatenation of the lines (a POSIX host, where
  \<^verbatim>\<open>\n\<close> is written as it is).
\<close>

type_synonym fs = "string \<rightharpoonup> string"

fun readlines :: "string \<Rightarrow> string list" where
  "readlines [] = []"
| "readlines (c # cs) =
     (if c = NL then [NL] # readlines cs
      else if c = CR then
        (case cs of
           [] \<Rightarrow> [[NL]]
         | d # ds \<Rightarrow> if d = NL then [NL] # readlines ds else [NL] # readlines (d # ds))
      else
        (case readlines cs of
           [] \<Rightarrow> [[c]]
         | l # ls \<Rightarrow> (c # l) # ls))"

definition writelines :: "string list \<Rightarrow> string" where
  "writelines ls = concat ls"

text \<open>\<^verbatim>\<open>os.path.join(a, b)\<close> for two components on a POSIX host.\<close>

definition os_path_join :: "string \<Rightarrow> string \<Rightarrow> string" where
  "os_path_join a b =
     (if startswith b ''/'' then b
      else if a = [] \<or> endswith a ''/'' then a @ b
      else a @ ''/'' @ b)"

section \<open>The patch engine (fixer.py)\<close>

text \<open>
  A fix is the dict built by the detectors and by the fix provider. The keys \<^verbatim>\<open>file\<close> and
  \<^verbatim>\<open>line\<close> are read with \<^verbatim>\<open>fix[...]\<close>; \<^verbatim>\<open>old_code\<close> and \<^verbatim>\<open>new_code\<close> are read with
  \<^verbatim>\<open>fix.get(..., "")\<close>, so \<open>None\<close> stands for an absent key (and, for \<^verbatim>\<open>new_code\<close>, for the
  value \<^verbatim>\<open>None\<close>, which the code treats like the empty string). \<^verbatim>\<open>status\<close> and
  \<^verbatim>\<open>status_message\<close> are absent until \<^verbatim>\<open>apply_fixes\<close> sets them.
\<close>

record fix_dict =
  file' :: string
  line :: int
  old_code :: "string option"
  new_code :: "string option"
  bug_type :: string
  description :: string
  status :: "string option"
  status_message :: "string option"

definition get_or_empty :: "string option \<Rightarrow> string" where
  "get_or_empty v = (case v of None \<Rightarrow> [] | Some s \<Rightarrow> s)"

text \<open>The text of a line as the engine compares it: \<^verbatim>\<open>line.rstrip("\n").rstrip("\r")\<close>.\<close>

definition chomp :: "string \<Rightarrow> string" where
  "chomp l = rstrip_chr CR (rstrip_chr NL l)"

text \<open>
  The relocation scan: \<^verbatim>\<open>for i, line in enumerate(lines)\<close>, stopping at the first line
  whose trimmed text equals the trimmed \<^verbatim>\<open>old_code\<close>. The first argument is the index of
  the head of the remaining lines.
\<close>

fun find_line :: "nat \<Rightarrow> string \<Rightarrow> string list \<Rightarrow> nat option" where
  "find_line i old [] = None"
| "find_line i old (l # ls) =
     (if strip (chomp l) = strip old then Some i else find_line (Suc i) old ls)"

text \<open>\<^verbatim>\<open>lines.pop(i)\<close> for an index in range.\<close>

definition pop :: "nat \<Rightarrow> 'a list \<Rightarrow> 'a list" where
  "pop i xs = take i xs @ drop (Suc i) xs"

definition mark_failed :: "fix_dict \<Rightarrow> string \<Rightarrow> fix_dict" where
  "mark_failed fx msg = fx\<lparr>status := Some ''failed'', status_message := Some msg\<rparr>"

definition mark_applied :: "fix_dict \<Rightarrow> fix_dict" where
  "mark_applied fx = fx\<lparr>status := Some ''applied'', status_message := Some ''Fix applied successfully''\<rparr>"

text \<open>The edit and the write-back, for a line index already settled.\<close>

definition edit_lines :: "string option \<Rightarrow> nat \<Rightarrow> string list \<Rightarrow> string list" where
  "edit_lines new i ls =
     (if new = Some [] \<or> new = None then pop i ls
      else
        let original_newline = (if endswith (ls ! i) [CR, NL] then [CR, NL] else [NL])
        in ls[i := the new @ original_newline])"

text \<open>The body of the loop over the fixes: one fix against the current file system.\<close>

definition apply_fix :: "string \<Rightarrow> fs \<Rightarrow> fix_dict \<Rightarrow> fs \<times> fix_dict" where
  "apply_fix repo_path files fx =
     (let file_path = os_path_join repo_path (file' fx) in
      case files file_path of
        None \<Rightarrow> (files, mark_failed fx (''File not found: '' @ file' fx))
      | Some content \<Rightarrow>
          let ls = readlines content;
              line_idx = line fx - 1
          in
          if line_idx < 0 \<or> line_idx \<ge> int (length ls) then
            (files, mark_failed fx (''Line '' @ str_int (line fx) @ '' out of range (file has ''
                                     @ str_nat (length ls) @ '' lines)''))
          else
            let old = strip (get_or_empty (old_code fx));
                new = new_code fx;
                actual_line = chomp (ls ! nat line_idx)
            in
            if old \<noteq> [] \<and> strip old \<noteq> strip actual_line then
              (case find_line 0 old ls of
                 None \<Rightarrow>
                   (files, mark_failed fx (''Expected '' @ [CHR 0x27] @ old @ [CHR 0x27] @ '' at line ''
                                            @ str_int (line fx) @ '', found '' @ [CHR 0x27] @ actual_line @ [CHR 0x27]))
               | Some i \<Rightarrow>
                   (files(file_path \<mapsto> writelines (edit_lines new i ls)), mark_applied fx))
            else
              (files(file_path \<mapsto> writelines (edit_lines new (nat line_idx) ls)), mark_applied fx))"

text \<open>\<^verbatim>\<open>apply_fixes\<close>: the fixes in order, each against the files the earlier ones left.\<close>

fun apply_fixes :: "string \<Rightarrow> fs \<Rightarrow> fix_dict list \<Rightarrow> fs \<times> fix_dict list" where
  "apply_fixes repo_path files [] = (files, [])"
| "apply_fixes repo_path files (fx # fxs) =
     (case apply_fix repo_path files fx of
        (files', r) \<Rightarrow>
          (case apply_fixes repo_path files' fxs of
             (files'', rs) \<Rightarrow> (files'', r # rs)))"

text \<open>
  What \<^verbatim>\<open>readlines\<close> returns: no line is empty, no line holds a carriage return, a
  line feed only ends a line, and every line but the last ends with one.
\<close>

definition line_ok :: "string \<Rightarrow> bool" where
  "line_ok l \<longleftrightarrow> l \<noteq> [] \<and> CR \<notin> set l \<and> NL \<notin> set (butlast l)"

fun lines_ok :: "string list \<Rightarrow> bool" where
  "lines_ok [] = True"
| "lines_ok [l] = line_ok l"
| "lines_ok (l # m # ls) = (line_ok l \<and> last l = NL \<and> lines_ok (m # ls))"

text \<open>
  The line a fix is aimed at, in the words of the specification: the line at the fix's own
  index when \<^verbatim>\<open>old_code\<close> is empty or matches there, else the first line of the file whose
  trimmed text equals the trimmed \<^verbatim>\<open>old_code\<close>.
\<close>

definition targeted :: "string \<Rightarrow> nat \<Rightarrow> string list \<Rightarrow> nat \<Rightarrow> bool" where
  "targeted old i0 ls j \<longleftrightarrow>
     (if old = [] \<or> strip (chomp (ls ! i0)) = old then j = i0
      else strip (chomp (ls ! j)) = old \<and> (\<forall>k < j. strip (chomp (ls ! k)) \<noteq> old))"

text \<open>A small repository and a fix against it, for concrete runs.\<close>

definition example_files :: fs where
  "example_files = [''repo/a.py'' \<mapsto> ''import os'' @ [NL] @ ''x = 1'' @ [NL] @ ''  y = 2'' @ [NL]]"

definition example_fix :: "int \<Rightarrow> string \<Rightarrow> string \<Rightarrow> fix_dict" where
  "example_fix n old new =
     \<lparr>file' = ''a.py'', line = n, old_code = Some old, new_code = Some new,
      bug_type = ''LOGIC'', description = ''example'', status = None, status_message = None\<rparr>"

text \<open>A file whose three lines end with \<^verbatim>\<open>\r\n\<close>, and the file a deletion of its second line
  should leave.\<close>

definition crlf_files :: fs where
  "crlf_files = [''repo/a.py'' \<mapsto> ''a'' @ [CR, NL] @ ''b'' @ [CR, NL] @ ''c'' @ [CR, NL]]"

definition crlf_expected :: string where
  "crlf_expected = ''a'' @ [CR, NL] @ ''c'' @ [CR, NL]"

section \<open>Indentation inference (deterministic_fixer.py)\<close>

datatype py_error = IndexError | ValueError

text \<open>\<^verbatim>\<open>len(prev) - len(prev.lstrip())\<close>: the number of leading white-space characters.\<close>

definition indent_width :: "string \<Rightarrow> nat" where
  "indent_width prev = length prev - length (lstrip prev)"

text \<open>
  The inner loop over the block-ending keywords: its \<^verbatim>\<open>continue\<close> goes on with the next
  keyword, so the loop changes nothing and control always reaches the statement after it.
\<close>

definition keyword_loop :: "string \<Rightarrow> unit" where
  "keyword_loop stripped =
     fold (\<lambda>kw _. if startswith stripped kw \<or> stripped = strip kw then () else ())
       [''return '', ''return'' @ [NL], ''break'', ''continue'', ''pass'', ''raise ''] ()"

text \<open>
  \<^verbatim>\<open>for i in range(idx - 1, -1, -1)\<close>: \<open>scan_back lines n\<close> runs the loop for the indices
  \<open>n - 1\<close> down to \<open>0\<close>. Reading \<^verbatim>\<open>lines[i]\<close> past the end raises \<^verbatim>\<open>IndexError\<close>.
\<close>

fun scan_back :: "string list \<Rightarrow> nat \<Rightarrow> py_error + string" where
  "scan_back lines 0 = Inr []"
| "scan_back lines (Suc i) =
     (if i \<ge> length lines then Inl IndexError
      else
        let prev = lines ! i;
            stripped = strip prev
        in
        if stripped = [] \<or> startswith stripped ''#'' then scan_back lines i
        else if endswith stripped '':'' then
          (let opener_indent = indent_width prev
           in Inr (replicate (opener_indent + 4) CHR '' ''))
        else
          (case keyword_loop stripped of () \<Rightarrow>
             let prev_indent = indent_width prev
             in if prev_indent mod 4 = 0 then Inr (replicate prev_indent CHR '' '')
                else scan_back lines i))"

definition determine_correct_indent :: "string list \<Rightarrow> int \<Rightarrow> py_error + string" where
  "determine_correct_indent lines idx = scan_back lines (nat idx)"

text \<open>
  The same result in the words of the specification. A line counts when it is neither
  blank nor a comment; it settles the indentation when it ends with the block-opening
  colon or its own indentation is a multiple of four. The nearest such line before the
  target decides; without one the indentation is empty.
\<close>

definition counts :: "string \<Rightarrow> bool" where
  "counts l \<longleftrightarrow> strip l \<noteq> [] \<and> \<not> startswith (strip l) ''#''"

definition opens_block :: "string \<Rightarrow> bool" where
  "opens_block l \<longleftrightarrow> endswith (strip l) '':''"

definition settles :: "string \<Rightarrow> bool" where
  "settles l \<longleftrightarrow> counts l \<and> (opens_block l \<or> indent_width l mod 4 = 0)"

definition spec_indent :: "string list \<Rightarrow> nat \<Rightarrow> string" where
  "spec_indent lines idx =
     (case filter (\<lambda>i. settles (lines ! i)) (rev [0..<idx]) of
        [] \<Rightarrow> []
      | i # _ \<Rightarrow>
          if opens_block (lines ! i) then replicate (indent_width (lines ! i) + 4) CHR '' ''
          else replicate (indent_width (lines ! i)) CHR '' '')"

text \<open>Five lines to run the inference on: the fifth is indented by five spaces.\<close>

definition example_lines :: "string list" where
  "example_lines = [''def f(x):'', ''   y = 1'', [], ''# c'', ''     z = 2'']"

section \<open>The healing orchestrator (pipeline.py)\<close>

text \<open>
  A raised exception is carried as its text, \<^verbatim>\<open>str(e)\<close>; \<open>Inl e\<close> is a raise.
\<close>

type_synonym exn = string

text \<open>The failure record of the result parser and the dict \<^verbatim>\<open>run_tests\<close> returns.\<close>

record failure =
  test_name :: string
  err_file :: string
  err_line :: int
  error_message :: string

record test_results =
  tr_passed :: nat
  tr_failed :: nat
  tr_errors :: "failure list"
  raw_output :: string

record analysis_info =
  tree :: string
  test_files :: "string list"
  language :: string
  test_command :: string

record fix_response =
  fixes' :: "fix_dict list"
  commit_title :: string

record commit_result =
  commit_hash :: string
  branch :: string
  push_success :: bool

record iter_result =
  iteration :: nat
  timestamp :: string
  iter_status :: string
  passed :: nat
  failed :: nat
  errors :: "failure list"
  fixes_applied :: "fix_dict list"
  commit :: "commit_result option"
  is_deterministic :: bool

record pipeline_result =
  repo_url :: string
  team_name :: string
  leader_name :: string
  branch_name :: string
  iterations :: "iter_result list"
  total_failures_detected :: nat
  total_fixes_applied :: nat
  final_status :: string
  all_fixes :: "fix_dict list"
  time_taken :: int
  analysis :: "analysis_info option"
  error :: "string option"

text \<open>
  The world the run acts on: the files of the workspace, which \<^verbatim>\<open>apply_fixes\<close> edits, and
  everything else (network, version control, processes, terminal, clock) as an opaque
  \<open>'x\<close>.
\<close>

record 'x world =
  disk :: fs
  ext :: 'x

text \<open>
  The external collaborators, each a function of the world that returns a value or
  raises. \<^verbatim>\<open>_discover_source_files_from_errors\<close> and \<^verbatim>\<open>read_file_contents\<close> walk and read
  the workspace and stand here as well. \<open>console\<close> is one call of a printing helper
  (\<^verbatim>\<open>_banner\<close>, \<^verbatim>\<open>_section\<close>, \<^verbatim>\<open>_info\<close>, \<^verbatim>\<open>_print_block\<close>, \<^verbatim>\<open>print\<close>,
  \<^verbatim>\<open>traceback.print_exc\<close>): writing to the terminal can fail, as on a closed stream or
  on a stream whose encoding lacks the box-drawing characters of the banners. The clock
  gives \<^verbatim>\<open>time.strftime\<close> and \<^verbatim>\<open>time.time\<close> (in hundredths of a second).
\<close>

record 'x collaborators =
  workspace_dir :: string
  clone_repo :: "string \<Rightarrow> string \<Rightarrow> 'x world \<Rightarrow> (exn + string) \<times> 'x world"
  analyze_repo :: "string \<Rightarrow> 'x world \<Rightarrow> (exn + analysis_info) \<times> 'x world"
  make_branch_name :: "string \<Rightarrow> string \<Rightarrow> string"
  create_branch :: "string \<Rightarrow> string \<Rightarrow> 'x world \<Rightarrow> (exn + unit) \<times> 'x world"
  detect_and_fix_deterministic :: "string \<Rightarrow> 'x world \<Rightarrow> (exn + fix_response) \<times> 'x world"
  commit_and_push :: "string \<Rightarrow> string \<Rightarrow> string \<Rightarrow> 'x world \<Rightarrow> (exn + commit_result) \<times> 'x world"
  run_tests :: "string \<Rightarrow> string \<Rightarrow> bool \<Rightarrow> 'x world \<Rightarrow> (exn + test_results) \<times> 'x world"
  discover_source_files_from_errors :: "string \<Rightarrow> failure list \<Rightarrow> 'x world \<Rightarrow> (exn + string list) \<times> 'x world"
  read_file_contents :: "string \<Rightarrow> string list \<Rightarrow> 'x world \<Rightarrow> (exn + (string \<times> string) list) \<times> 'x world"
  ask_for_fixes :: "string \<Rightarrow> (string \<times> string) list \<Rightarrow> failure list \<Rightarrow> 'x world \<Rightarrow> (exn + fix_response) \<times> 'x world"
  console :: "'x world \<Rightarrow> (exn + unit) \<times> 'x world"
  strftime :: "'x world \<Rightarrow> string"
  time_time :: "'x world \<Rightarrow> int"

text \<open>
  The two optional parameters \<^verbatim>\<open>status_callback\<close> and \<^verbatim>\<open>event_callback\<close> of
  \<^verbatim>\<open>run_pipeline\<close>: \<open>None\<close> when the caller gives none, else the caller's code, which acts
  on the world and returns or raises. The status callback receives the message; of an
  event the callback's outcome is taken to depend on the event type and on the world.
\<close>

record 'x callbacks =
  status_callback :: "(string \<Rightarrow> 'x world \<Rightarrow> (exn + unit) \<times> 'x world) option"
  event_callback :: "(string \<Rightarrow> 'x world \<Rightarrow> (exn + unit) \<times> 'x world) option"

text \<open>
  The state of a run: the world, the \<^verbatim>\<open>result\<close> dict under construction and the
  \<^verbatim>\<open>deps_installed\<close> flag. Three more fields are kept for the properties below and are
  not in the code: the types of the events \<^verbatim>\<open>emit\<close> was called with, the number of calls
  of \<^verbatim>\<open>run_tests\<close>, and, once a call of a collaborator, of the terminal or of a callback
  has raised, the text of the first such exception with the \<^verbatim>\<open>result\<close> dict as it stood at
  that moment.
\<close>

record 'x pstate =
  world :: "'x world"
  result :: pipeline_result
  deps_installed :: bool
  events :: "string list"
  test_runs :: nat
  first_raise :: "(exn \<times> pipeline_result) option"

definition MAX_ITERATIONS :: nat where
  "MAX_ITERATIONS = 5"

text \<open>\<^verbatim>\<open>range(1, MAX_ITERATIONS + 1)\<close>.\<close>

definition iteration_range :: "nat list" where
  "iteration_range = [1..<MAX_ITERATIONS + 1]"

text \<open>
  A statement of the function is a step: from a state it returns a value or raises, and
  leaves a state. \<open>give\<close> returns a value, \<open>andthen\<close> runs a second step on the value of the
  first unless the first raised, \<open>steps\<close> runs statements in a row, \<open>assign\<close> updates the
  local state, \<open>call\<close> calls code outside the function.
\<close>

type_synonym ('a, 'x) step = "'x pstate \<Rightarrow> (exn + 'a) \<times> 'x pstate"

definition give :: "'a \<Rightarrow> ('a, 'x) step" where
  "give a s = (Inr a, s)"

definition andthen :: "('a, 'x) step \<Rightarrow> ('a \<Rightarrow> ('b, 'x) step) \<Rightarrow> ('b, 'x) step" where
  "andthen m f s = (case m s of (Inl e, s') \<Rightarrow> (Inl e, s') | (Inr a, s') \<Rightarrow> f a s')"

fun steps :: "(unit, 'x) step list \<Rightarrow> (unit, 'x) step" where
  "steps [] = give ()"
| "steps (m # ms) = andthen m (\<lambda>_. steps ms)"

definition assign :: "('x pstate \<Rightarrow> 'x pstate) \<Rightarrow> (unit, 'x) step" where
  "assign f s = (Inr (), f s)"

definition note_raise :: "exn \<Rightarrow> 'x pstate \<Rightarrow> 'x pstate" where
  "note_raise e s =
     (case first_raise s of None \<Rightarrow> s\<lparr>first_raise := Some (e, result s)\<rparr> | Some _ \<Rightarrow> s)"

definition call :: "('x world \<Rightarrow> (exn + 'a) \<times> 'x world) \<Rightarrow> ('a, 'x) step" where
  "call f s =
     (case f (world s) of
        (Inl e, w) \<Rightarrow> (Inl e, note_raise e (s\<lparr>world := w\<rparr>))
      | (Inr a, w) \<Rightarrow> (Inr a, s\<lparr>world := w\<rparr>))"

text \<open>One call of a printing helper, and \<open>n\<close> of them in a row.\<close>

definition say :: "'x collaborators \<Rightarrow> (unit, 'x) step" where
  "say E = call (console E)"

fun says :: "'x collaborators \<Rightarrow> nat \<Rightarrow> (unit, 'x) step" where
  "says E 0 = give ()"
| "says E (Suc n) = andthen (say E) (\<lambda>_. says E n)"

text \<open>The two local functions of \<^verbatim>\<open>run_pipeline\<close>.\<close>

definition update_status :: "'x collaborators \<Rightarrow> 'x callbacks \<Rightarrow> string \<Rightarrow> (unit, 'x) step" where
  "update_status E cb msg =
     andthen (say E)
       (\<lambda>_. case status_callback cb of None \<Rightarrow> give () | Some f \<Rightarrow> call (f msg))"

definition emit :: "'x callbacks \<Rightarrow> string \<Rightarrow> (unit, 'x) step" where
  "emit cb event_type =
     andthen (assign (\<lambda>s. s\<lparr>events := events s @ [event_type]\<rparr>))
       (\<lambda>_. case event_callback cb of None \<Rightarrow> give () | Some f \<Rightarrow> call (f event_type))"

text \<open>\<^verbatim>\<open>time.strftime("%Y-%m-%d %H:%M:%S")\<close>.\<close>

definition clock :: "'x collaborators \<Rightarrow> (string, 'x) step" where
  "clock E s = (Inr (strftime E (world s)), s)"

text \<open>\<^verbatim>\<open>sum(1 for f in applied if f["status"] == st)\<close>.\<close>

definition count_status :: "string \<Rightarrow> fix_dict list \<Rightarrow> nat" where
  "count_status st fxs = length (filter (\<lambda>f. status f = Some st) fxs)"

definition append_iteration :: "iter_result \<Rightarrow> 'x pstate \<Rightarrow> 'x pstate" where
  "append_iteration ir s = s\<lparr>result := (result s)\<lparr>iterations := iterations (result s) @ [ir]\<rparr>\<rparr>"

definition set_final_status :: "string \<Rightarrow> 'x pstate \<Rightarrow> 'x pstate" where
  "set_final_status st s = s\<lparr>result := (result s)\<lparr>final_status := st\<rparr>\<rparr>"

definition add_failures :: "nat \<Rightarrow> 'x pstate \<Rightarrow> 'x pstate" where
  "add_failures n s =
     s\<lparr>result := (result s)\<lparr>total_failures_detected := total_failures_detected (result s) + n\<rparr>\<rparr>"

text \<open>
  The call of \<^verbatim>\<open>apply_fixes\<close> on the files of the world, with the bookkeeping after it. The
  messages \<^verbatim>\<open>apply_fixes\<close> prints are taken to succeed, as in the patch engine above.
\<close>

definition apply_and_count :: "string \<Rightarrow> fix_dict list \<Rightarrow> (fix_dict list, 'x) step" where
  "apply_and_count repo_path fxs s =
     (case apply_fixes repo_path (disk (world s)) fxs of
        (files', applied) \<Rightarrow>
          (Inr applied,
           s\<lparr>world := (world s)\<lparr>disk := files'\<rparr>,
             result := (result s)
               \<lparr>total_fixes_applied := total_fixes_applied (result s) + count_status ''applied'' applied,
                all_fixes := all_fixes (result s) @ applied\<rparr>\<rparr>))"

text \<open>The call of \<^verbatim>\<open>run_tests\<close>, counted.\<close>

definition run_tests_step :: "'x collaborators \<Rightarrow> string \<Rightarrow> string \<Rightarrow> (test_results, 'x) step" where
  "run_tests_step E repo_path cmd s =
     call (run_tests E repo_path cmd (deps_installed s)) (s\<lparr>test_runs := test_runs s + 1\<rparr>)"

text \<open>Step 4, the deterministic pass.\<close>

definition deterministic_pass ::
  "'x collaborators \<Rightarrow> 'x callbacks \<Rightarrow> string \<Rightarrow> string \<Rightarrow> (unit, 'x) step" where
  "deterministic_pass E cb repo_path branch_nm =
     andthen (steps [say E,
                     update_status E cb ''Running deterministic bug detection (no LLM)...'',
                     emit cb ''step'']) (\<lambda>_.
     andthen (call (detect_and_fix_deterministic E repo_path)) (\<lambda>det_result.
     if fixes' det_result \<noteq> [] then
       andthen (steps [say E, emit cb ''fixes'']) (\<lambda>_.
       andthen (apply_and_count repo_path (fixes' det_result)) (\<lambda>applied.
       andthen (steps [say E, emit cb ''fix_applied'']) (\<lambda>_.
       if count_status ''applied'' applied > 0 then
         andthen (call (commit_and_push E repo_path (commit_title det_result) branch_nm)) (\<lambda>commit_res.
         andthen (steps [say E, emit cb ''commit'']) (\<lambda>_.
         andthen (clock E) (\<lambda>now.
         assign (append_iteration
                   \<lparr>iteration = 0, timestamp = now, iter_status = ''DETERMINISTIC_FIX'',
                    passed = 0, failed = 0, errors = [], fixes_applied = applied,
                    commit = Some commit_res, is_deterministic = True\<rparr>))))
       else give ())))
     else say E))"

text \<open>How one pass through the body of the iteration loop ends, when it does not raise.\<close>

datatype control = Continue | Break

text \<open>The body of \<^verbatim>\<open>for iteration in range(1, MAX_ITERATIONS + 1)\<close>.\<close>

definition iteration_body ::
  "'x collaborators \<Rightarrow> 'x callbacks \<Rightarrow> string \<Rightarrow> analysis_info \<Rightarrow> string \<Rightarrow> nat \<Rightarrow> (control, 'x) step" where
  "iteration_body E cb repo_path an branch_nm it =
     andthen (steps [say E, emit cb ''iteration_start'']) (\<lambda>_.
     andthen (clock E) (\<lambda>now.
     andthen (steps [say E,
                     update_status E cb
                       (''Iteration '' @ str_nat it @ ''/'' @ str_nat MAX_ITERATIONS @ '': Running tests...''),
                     emit cb ''step'']) (\<lambda>_.
     andthen (run_tests_step E repo_path (test_command an)) (\<lambda>tr.
     let iter1 = \<lparr>iteration = it, timestamp = now, iter_status = ''running'',
                  passed = tr_passed tr, failed = tr_failed tr, errors = tr_errors tr,
                  fixes_applied = [], commit = None, is_deterministic = False\<rparr>
     in
     andthen (steps [assign (\<lambda>s. s\<lparr>deps_installed := True\<rparr>),
                     says E 3,
                     (if tr_errors tr \<noteq> [] then steps [say E, says E (length (tr_errors tr))] else give ()),
                     emit cb ''test_result'']) (\<lambda>_.
     if tr_failed tr = 0 \<and> length (tr_errors tr) = 0 then
       andthen (steps [assign (append_iteration (iter1\<lparr>iter_status := ''PASSED''\<rparr>)),
                       assign (set_final_status ''PASSED''),
                       say E,
                       update_status E cb (''All tests passed on iteration '' @ str_nat it @ ''!''),
                       emit cb ''all_passed'']) (\<lambda>_.
       give Break)
     else
       andthen (steps [assign (add_failures (tr_failed tr + length (tr_errors tr))), say E]) (\<lambda>_.
       andthen (call (discover_source_files_from_errors E repo_path (tr_errors tr))) (\<lambda>files_needed.
       andthen (steps [say E, says E (length files_needed), emit cb ''files_needed'']) (\<lambda>_.
       andthen (call (read_file_contents E repo_path files_needed)) (\<lambda>file_contents.
       andthen (steps [emit cb ''file_contents'',
                       say E,
                       update_status E cb
                         (''Iteration '' @ str_nat it @ '': Asking LLM for fixes (LOGIC/TYPE_ERROR only)...''),
                       emit cb ''step'']) (\<lambda>_.
       andthen (call (ask_for_fixes E (tree an) file_contents (tr_errors tr))) (\<lambda>fix_resp.
       if fixes' fix_resp = [] then
         andthen (steps [say E,
                         assign (append_iteration (iter1\<lparr>iter_status := ''NO_FIXES''\<rparr>)),
                         assign (set_final_status ''FAILED''),
                         update_status E cb ''No fixes could be generated. Stopping.'',
                         emit cb ''no_fixes'']) (\<lambda>_.
         give Break)
       else
         andthen (steps [say E,
                         says E (length (fixes' fix_resp)),
                         emit cb ''fixes'',
                         say E,
                         update_status E cb
                           (''Iteration '' @ str_nat it @ '': Applying '' @
                            str_nat (length (fixes' fix_resp)) @ '' fixes...''),
                         emit cb ''step'']) (\<lambda>_.
         andthen (apply_and_count repo_path (fixes' fix_resp)) (\<lambda>applied.
         let iter2 = iter1\<lparr>fixes_applied := applied\<rparr> in
         andthen (steps [say E, emit cb ''fix_applied'']) (\<lambda>_.
         if count_status ''applied'' applied = 0 then
           andthen (steps [say E,
                           assign (append_iteration (iter2\<lparr>iter_status := ''NO_FIXES_APPLIED''\<rparr>)),
                           assign (set_final_status ''FAILED''),
                           update_status E cb ''No fixes could be applied. Stopping.'',
                           emit cb ''no_fixes_applied'']) (\<lambda>_.
           give Break)
         else
           andthen (steps [say E,
                           update_status E cb (''Iteration '' @ str_nat it @ '': Committing fixes...''),
                           emit cb ''step'']) (\<lambda>_.
           andthen (call (commit_and_push E repo_path
                            (if \<not> startswith (commit_title fix_resp) ''[AI-AGENT]''
                             then ''[AI-AGENT] '' @ commit_title fix_resp
                             else commit_title fix_resp)
                            branch_nm)) (\<lambda>commit_res.
           andthen (steps [say E,
                           emit cb ''commit'',
                           assign (append_iteration
                                     (iter2\<lparr>commit := Some commit_res, iter_status := ''FIXED''\<rparr>)),
                           say E,
                           emit cb ''iteration_complete'']) (\<lambda>_.
           give Continue)))))))))))))))))"

text \<open>
  The loop with its \<^verbatim>\<open>else\<close> clause, which runs only when the range is used up without a
  \<^verbatim>\<open>break\<close>.
\<close>

fun iteration_loop ::
  "'x collaborators \<Rightarrow> 'x callbacks \<Rightarrow> string \<Rightarrow> analysis_info \<Rightarrow> string \<Rightarrow> nat list \<Rightarrow> (unit, 'x) step" where
  "iteration_loop E cb repo_path an branch_nm [] =
     (\<lambda>s. if final_status (result s) = ''RUNNING''
          then steps [assign (set_final_status ''MAX_ITERATIONS''), say E, emit cb ''max_iterations''] s
          else give () s)"
| "iteration_loop E cb repo_path an branch_nm (it # its) =
     andthen (iteration_body E cb repo_path an branch_nm it)
       (\<lambda>c. case c of Continue \<Rightarrow> iteration_loop E cb repo_path an branch_nm its
                     | Break \<Rightarrow> give ())"

text \<open>The statements inside \<^verbatim>\<open>try\<close>: steps 1 to 4 and the loop.\<close>

definition pipeline_body ::
  "'x collaborators \<Rightarrow> 'x callbacks \<Rightarrow> string \<Rightarrow> string \<Rightarrow> string \<Rightarrow> (unit, 'x) step" where
  "pipeline_body E cb url team leader =
     andthen (steps [says E 3, update_status E cb ''Cloning repository...'', emit cb ''step'']) (\<lambda>_.
     andthen (call (clone_repo E url (workspace_dir E))) (\<lambda>repo_path.
     andthen (steps [say E,
                     emit cb ''clone'',
                     say E,
                     update_status E cb ''Analyzing repository structure...'',
                     emit cb ''step'']) (\<lambda>_.
     andthen (call (analyze_repo E repo_path)) (\<lambda>an.
     andthen (steps [assign (\<lambda>s. s\<lparr>result := (result s)\<lparr>analysis := Some an\<rparr>\<rparr>),
                     says E 3,
                     says E (length (test_files an)),
                     say E,
                     emit cb ''analysis'',
                     say E,
                     assign (\<lambda>s. s\<lparr>result := (result s)\<lparr>branch_name := make_branch_name E team leader\<rparr>\<rparr>),
                     say E]) (\<lambda>_.
     andthen (call (create_branch E repo_path (make_branch_name E team leader))) (\<lambda>_.
     andthen (steps [say E, emit cb ''branch'']) (\<lambda>_.
     andthen (deterministic_pass E cb repo_path (make_branch_name E team leader)) (\<lambda>_.
     iteration_loop E cb repo_path an (make_branch_name E team leader) iteration_range))))))))"

definition initial_state :: "'x world \<Rightarrow> string \<Rightarrow> string \<Rightarrow> string \<Rightarrow> 'x pstate" where
  "initial_state w url team leader =
     \<lparr>world = w,
      result = \<lparr>repo_url = url, team_name = team, leader_name = leader, branch_name = [],
                iterations = [], total_failures_detected = 0, total_fixes_applied = 0,
                final_status = ''RUNNING'', all_fixes = [], time_taken = 0,
                analysis = None, error = None\<rparr>,
      deps_installed = False, events = [], test_runs = 0, first_raise = None\<rparr>"

text \<open>
  The \<^verbatim>\<open>except Exception as e\<close> handler: it writes the status and the text of the exception
  into the result, then prints, calls the status callback, prints the traceback and emits
  the \<^verbatim>\<open>error\<close> event. No \<^verbatim>\<open>try\<close> surrounds these calls.
\<close>

definition handler :: "'x collaborators \<Rightarrow> 'x callbacks \<Rightarrow> exn \<Rightarrow> (unit, 'x) step" where
  "handler E cb e =
     steps [assign (\<lambda>s. s\<lparr>result := (result s)\<lparr>final_status := ''ERROR'', error := Some e\<rparr>\<rparr>),
            say E,
            update_status E cb (''Error: '' @ e),
            say E,
            emit cb ''error'']"

text \<open>
  The statements after the \<^verbatim>\<open>try\<close> statement: the time taken, the banner and the six lines
  of the summary, the \<^verbatim>\<open>done\<close> event, and \<^verbatim>\<open>return result\<close>.
\<close>

definition summary :: "'x collaborators \<Rightarrow> 'x callbacks \<Rightarrow> int \<Rightarrow> (pipeline_result, 'x) step" where
  "summary E cb start_time =
     andthen (steps [assign (\<lambda>s. s\<lparr>result := (result s)
                                \<lparr>time_taken := time_time E (world s) - start_time\<rparr>\<rparr>),
                     say E,
                     says E 6,
                     emit cb ''done''])
       (\<lambda>_ s. (Inr (result s), s))"

text \<open>
  \<^verbatim>\<open>run_pipeline\<close>. A raise inside \<^verbatim>\<open>try\<close> goes to the handler; a raise of the handler or of
  the statements after it leaves the function, and then no result is returned. The first
  component is the returned dict or the exception that leaves the function; the state is
  the one the function leaves behind.
\<close>

definition run_pipeline ::
  "'x collaborators \<Rightarrow> 'x callbacks \<Rightarrow> 'x world \<Rightarrow> string \<Rightarrow> string \<Rightarrow> string \<Rightarrow>
   (exn + pipeline_result) \<times> 'x pstate" where
  "run_pipeline E cb w url team leader =
     (let start_time = time_time E w in
      case pipeline_body E cb url team leader (initial_state w url team leader) of
        (Inr _, s) \<Rightarrow> summary E cb start_time s
      | (Inl e, s) \<Rightarrow> andthen (handler E cb e) (\<lambda>_. summary E cb start_time) s)"

text \<open>
  Three measures of a step, for the properties below: it adds at most \<open>n\<close> test runs;
  started before any raise, it ends in a raise exactly when a call in it raised, with the
  result dict as that call left it; and it leaves the result dict alone.
\<close>

definition within :: "nat \<Rightarrow> ('a, 'x) step \<Rightarrow> bool" where
  "within n m \<longleftrightarrow> (\<forall>s. test_runs (snd (m s)) \<le> test_runs s + n)"

definition traced :: "('a, 'x) step \<Rightarrow> bool" where
  "traced m \<longleftrightarrow>
     (\<forall>s. first_raise s = None \<longrightarrow>
        (case m s of
           (Inl e, s') \<Rightarrow> first_raise s' = Some (e, result s')
         | (Inr a, s') \<Rightarrow> first_raise s' = None))"

definition silent :: "(unit, 'x) step \<Rightarrow> bool" where
  "silent m \<longleftrightarrow> (\<forall>s. fst (m s) = Inr () \<and> result (snd (m s)) = result s \<and> first_raise (snd (m s)) = first_raise s)"

text \<open>
  Scripted collaborators for a concrete run: the detector proposes one deletion, the first
  test run fails, the provider proposes one replacement, and the second test run raises.
  The opaque part of the world counts the test runs that returned. The callbacks of the
  run return without effect.
\<close>

definition example_failure :: failure where
  "example_failure = \<lparr>test_name = ''test_x'', err_file = ''tests/test_a.py'', err_line = 3,
                        error_message = ''assert 1 == 2''\<rparr>"

definition example_collaborators :: "nat collaborators" where
  "example_collaborators =
     \<lparr>workspace_dir = ''workspace'',
      clone_repo = (\<lambda>url dir w. (Inr ''repo'', w)),
      analyze_repo = (\<lambda>p w. (Inr \<lparr>tree = ''a.py'', test_files = [''tests/test_a.py''],
                                      language = ''python'', test_command = ''pytest -v''\<rparr>, w)),
      make_branch_name = (\<lambda>team leader. team @ ''_'' @ leader @ ''_AI_Fix''),
      create_branch = (\<lambda>p b w. (Inr (), w)),
      detect_and_fix_deterministic =
        (\<lambda>p w. (Inr \<lparr>fixes' = [example_fix 1 ''import os'' []],
                        commit_title = ''[AI-AGENT] Fix syntax, import, linting, and indentation errors (deterministic)''\<rparr>, w)),
      commit_and_push = (\<lambda>p msg b w. (Inr \<lparr>commit_hash = ''abc1234'', branch = b, push_success = True\<rparr>, w)),
      run_tests =
        (\<lambda>p cmd skip w.
           if ext w = 0
           then (Inr \<lparr>tr_passed = 0, tr_failed = 1, tr_errors = [example_failure], raw_output = ''FAILED''\<rparr>,
                 w\<lparr>ext := 1\<rparr>)
           else (Inl ''Command timed out'', w)),
      discover_source_files_from_errors = (\<lambda>p errs w. (Inr [''a.py''], w)),
      read_file_contents = (\<lambda>p fps w. (Inr [(''a.py'', ''x = 1'')], w)),
      ask_for_fixes = (\<lambda>t fc errs w. (Inr \<lparr>fixes' = [example_fix 1 ''x = 1'' ''x = 2''], commit_title = ''Fix x''\<rparr>, w)),
      console = (\<lambda>w. (Inr (), w)),
      strftime = (\<lambda>w. ''2026-01-01 00:00:00''),
      time_time = (\<lambda>w. int (ext w))\<rparr>"

definition example_callbacks :: "nat callbacks" where
  "example_callbacks =
     \<lparr>status_callback = Some (\<lambda>msg w. (Inr (), w)),
      event_callback = Some (\<lambda>event_type w. (Inr (), w))\<rparr>"

definition example_world :: "nat world" where
  "example_world = \<lparr>disk = example_files, ext = 0\<rparr>"

text \<open>
  Collaborators and callbacks for four runs. In three the first step, the clone, raises,
  and then a call of the handler or of the summary raises as well: the status callback on
  the message of the handler, the event callback on the \<^verbatim>\<open>error\<close> event, the event callback
  on the \<^verbatim>\<open>done\<close> event. In the fourth every write to the terminal fails.
\<close>

definition failing_clone :: "nat collaborators" where
  "failing_clone = example_collaborators\<lparr>clone_repo := (\<lambda>url dir w. (Inl ''clone failed'', w\<lparr>ext := 1\<rparr>))\<rparr>"

definition raising_status :: "nat callbacks" where
  "raising_status =
     \<lparr>status_callback = Some (\<lambda>msg w. if startswith msg ''Error: '' then (Inl ''status failed'', w) else (Inr (), w)),
      event_callback = None\<rparr>"

definition raising_on :: "string \<Rightarrow> nat callbacks" where
  "raising_on t =
     \<lparr>status_callback = None,
      event_callback = Some (\<lambda>event_type w. if event_type = t then (Inl ''event failed'', w) else (Inr (), w))\<rparr>"

definition no_callbacks :: "nat callbacks" where
  "no_callbacks = \<lparr>status_callback = None, event_callback = None\<rparr>"

definition failing_console :: "nat collaborators" where
  "failing_console = example_collaborators\<lparr>console := (\<lambda>w. (Inl ''write failed'', w))\<rparr>"

section \<open>Regular expressions (the patterns of the detectors and of the result parser)\<close>

text \<open>
  Python's \<^verbatim>\<open>re\<close> classes on code points 0..255: \<^verbatim>\<open>\s\<close> is \<^verbatim>\<open>str.isspace\<close>, \<^verbatim>\<open>\d\<close> is
  \<^verbatim>\<open>0-9\<close>, \<^verbatim>\<open>\w\<close> is the underscore and every character for which \<^verbatim>\<open>str.isalnum\<close> holds.
\<close>

definition py_isdigit :: "char \<Rightarrow> bool" where
  "py_isdigit c \<longleftrightarrow> 48 \<le> (of_char c :: nat) \<and> (of_char c :: nat) \<le> 57"

definition py_isword :: "char \<Rightarrow> bool" where
  "py_isword c \<longleftrightarrow>
     (let n = (of_char c :: nat) in
      (48 \<le> n \<and> n \<le> 57) \<or> (65 \<le> n \<and> n \<le> 90) \<or> n = 95 \<or> (97 \<le> n \<and> n \<le> 122) \<or>
      n \<in> {170, 178, 179, 181, 185, 186, 188, 189, 190} \<or>
      (192 \<le> n \<and> n \<le> 214) \<or> (216 \<le> n \<and> n \<le> 246) \<or> (248 \<le> n \<and> n \<le> 255))"

text \<open>
  A character class: a literal, \<^verbatim>\<open>.\<close> (not a line feed), \<^verbatim>\<open>.\<close> under \<^verbatim>\<open>DOTALL\<close>,
  \<^verbatim>\<open>\s\<close>, \<^verbatim>\<open>\S\<close>, \<^verbatim>\<open>\w\<close>, \<^verbatim>\<open>\d\<close>, and a set \<^verbatim>\<open>[...]\<close>.
\<close>

datatype cls = Lit char | Dot | DotAll | Space | NonSpace | Word | Digit | OneOf "cls list"

fun in_cls :: "cls \<Rightarrow> char \<Rightarrow> bool" where
  "in_cls (Lit c) x = (x = c)"
| "in_cls Dot x = (x \<noteq> NL)"
| "in_cls DotAll x = True"
| "in_cls Space x = py_isspace x"
| "in_cls NonSpace x = (\<not> py_isspace x)"
| "in_cls Word x = py_isword x"
| "in_cls Digit x = py_isdigit x"
| "in_cls (OneOf cs) x = list_ex (\<lambda>c. in_cls c x) cs"

text \<open>
  The patterns of this repository repeat single characters only, so a repetition holds a
  class, its minimum count and whether it is greedy (\<^verbatim>\<open>*\<close>, \<^verbatim>\<open>+\<close>, \<^verbatim>\<open>{5,}\<close>) or lazy
  (\<^verbatim>\<open>*?\<close>). \<open>Ahead\<close> is \<^verbatim>\<open>(?=...)\<close>, \<open>Bol\<close> is \<^verbatim>\<open>^\<close>, \<open>Eol\<close> is \<^verbatim>\<open>$\<close>, \<open>Eos\<close> is \<^verbatim>\<open>\Z\<close>.
\<close>

datatype re =
    Atom cls
  | Rep cls bool nat
  | Str string
  | Seq re re
  | Alt re re
  | Group re
  | Ahead re
  | Bol
  | Eol
  | Eos

fun cat :: "re list \<Rightarrow> re" where
  "cat [] = Str []"
| "cat [r] = r"
| "cat (r # rs) = Seq r (cat rs)"


text \<open>
  A backtracking matcher in continuation style, as \<^verbatim>\<open>re\<close> matches: a position is the
  number of characters before it and the text after it; \<open>k\<close> is the rest of the pattern.
  The first alternative that lets the rest succeed wins: the longest run first for a greedy
  repetition, the shortest first for a lazy one, the left branch first for \<^verbatim>\<open>|\<close>.
\<close>

type_synonym pos = "nat \<times> string"
type_synonym found = "pos \<times> string list"

fun rep_greedy :: "cls \<Rightarrow> nat \<Rightarrow> nat \<Rightarrow> string \<Rightarrow> (pos \<Rightarrow> found option) \<Rightarrow> found option" where
  "rep_greedy c n p [] k = (if n = 0 then k (p, []) else None)"
| "rep_greedy c n p (x # xs) k =
     (if in_cls c x then
        (case rep_greedy c (n - 1) (Suc p) xs k of
           Some r \<Rightarrow> Some r
         | None \<Rightarrow> if n = 0 then k (p, x # xs) else None)
      else if n = 0 then k (p, x # xs) else None)"

fun rep_lazy :: "cls \<Rightarrow> nat \<Rightarrow> nat \<Rightarrow> string \<Rightarrow> (pos \<Rightarrow> found option) \<Rightarrow> found option" where
  "rep_lazy c n p [] k = (if n = 0 then k (p, []) else None)"
| "rep_lazy c n p (x # xs) k =
     (if n = 0 then
        (case k (p, x # xs) of
           Some r \<Rightarrow> Some r
         | None \<Rightarrow> if in_cls c x then rep_lazy c 0 (Suc p) xs k else None)
      else if in_cls c x then rep_lazy c (n - 1) (Suc p) xs k else None)"

fun match_at :: "re \<Rightarrow> pos \<Rightarrow> string list \<Rightarrow> (pos \<Rightarrow> string list \<Rightarrow> found option) \<Rightarrow> found option" where
  "match_at (Atom c) (p, s) gs k =
     (case s of [] \<Rightarrow> None | x # xs \<Rightarrow> if in_cls c x then k (Suc p, xs) gs else None)"
| "match_at (Rep c greedy n) (p, s) gs k =
     (if greedy then rep_greedy c n p s (\<lambda>st. k st gs) else rep_lazy c n p s (\<lambda>st. k st gs))"
| "match_at (Str t) (p, s) gs k =
     (if take (length t) s = t then k (p + length t, drop (length t) s) gs else None)"
| "match_at (Seq a b) st gs k = match_at a st gs (\<lambda>st' gs'. match_at b st' gs' k)"
| "match_at (Alt a b) st gs k =
     (case match_at a st gs k of Some r \<Rightarrow> Some r | None \<Rightarrow> match_at b st gs k)"
| "match_at (Group a) (p, s) gs k =
     match_at a (p, s) gs (\<lambda>st' gs'. k st' (gs' @ [take (fst st' - p) s]))"
| "match_at (Ahead a) st gs k =
     (case match_at a st gs (\<lambda>st' gs'. Some (st', gs')) of
        None \<Rightarrow> None
      | Some (st', gs') \<Rightarrow> k st gs')"
| "match_at Bol (p, s) gs k = (if p = 0 then k (p, s) gs else None)"
| "match_at Eol (p, s) gs k = (if s = [] \<or> s = [NL] then k (p, s) gs else None)"
| "match_at Eos (p, s) gs k = (if s = [] then k (p, s) gs else None)"

text \<open>A match of the whole pattern from a position: where it ends and the groups.\<close>

definition match_here :: "re \<Rightarrow> pos \<Rightarrow> found option" where
  "match_here r st = match_at r st [] (\<lambda>st' gs. Some (st', gs))"


text \<open>\<^verbatim>\<open>re.search(r, s)\<close>: the groups of the leftmost match.\<close>

fun search_from :: "re \<Rightarrow> nat \<Rightarrow> string \<Rightarrow> string list option" where
  "search_from r p [] = map_option snd (match_here r (p, []))"
| "search_from r p (x # xs) =
     (case match_here r (p, x # xs) of
        Some (_, gs) \<Rightarrow> Some gs
      | None \<Rightarrow> search_from r (Suc p) xs)"

definition re_search :: "re \<Rightarrow> string \<Rightarrow> string list option" where
  "re_search r s = search_from r 0 s"

text \<open>
  \<^verbatim>\<open>r.findall(s)\<close>: the groups of the successive matches, each search starting where the
  match before it ended. \<open>skip\<close> counts the characters still inside the last match. (The
  patterns used with \<^verbatim>\<open>findall\<close> here begin with a literal word or with five
  underscores, so no match is empty.)
\<close>

fun findall_from :: "re \<Rightarrow> nat \<Rightarrow> nat \<Rightarrow> string \<Rightarrow> string list list" where
  "findall_from r p skip [] =
     (if skip = 0 then (case match_here r (p, []) of None \<Rightarrow> [] | Some (_, gs) \<Rightarrow> [gs]) else [])"
| "findall_from r p skip (x # xs) =
     (if skip > 0 then findall_from r (Suc p) (skip - 1) xs
      else
        (case match_here r (p, x # xs) of
           None \<Rightarrow> findall_from r (Suc p) 0 xs
         | Some ((e, _), gs) \<Rightarrow> gs # findall_from r (Suc p) (e - p - 1) xs))"

definition findall :: "re \<Rightarrow> string \<Rightarrow> string list list" where
  "findall r s = findall_from r 0 0 s"

section \<open>More Python text primitives\<close>

text \<open>\<^verbatim>\<open>s.split("\n")\<close>: the pieces between line feeds; never an empty list.\<close>

fun split_nl :: "string \<Rightarrow> string list" where
  "split_nl [] = [[]]"
| "split_nl (c # cs) =
     (if c = NL then [] # split_nl cs
      else (case split_nl cs of [] \<Rightarrow> [[c]] | l # ls \<Rightarrow> (c # l) # ls))"



text \<open>\<^verbatim>\<open>sub in s\<close>.\<close>

fun contains :: "string \<Rightarrow> string \<Rightarrow> bool" where
  "contains [] sub = (sub = [])"
| "contains (c # cs) sub = (startswith (c # cs) sub \<or> contains cs sub)"

text \<open>\<^verbatim>\<open>s.replace("\\", "/")\<close>.\<close>

definition slashes :: "string \<Rightarrow> string" where
  "slashes s = map (\<lambda>c. if c = CHR 0x5C then CHR ''/'' else c) s"

text \<open>
  \<^verbatim>\<open>int(s)\<close> for a text of decimal digits, the only texts the patterns below hand to it.
  CPython converts at most \<^verbatim>\<open>sys.get_int_max_str_digits()\<close> digits, 4300 unless
  configured otherwise, and raises \<^verbatim>\<open>ValueError\<close> beyond that. Any other text is a
  \<^verbatim>\<open>ValueError\<close> in this model.
\<close>

definition int_max_str_digits :: nat where
  "int_max_str_digits = 4300"

definition digits_value :: "string \<Rightarrow> int" where
  "digits_value s = foldl (\<lambda>n c. 10 * n + (of_char c - 48)) 0 s"

definition py_int :: "string \<Rightarrow> py_error + int" where
  "py_int s =
     (if s = [] \<or> \<not> list_all py_isdigit s then Inl ValueError
      else if length s > int_max_str_digits then Inl ValueError
      else Inr (digits_value s))"

section \<open>The parse-failure heuristics (deterministic_fixer.py)\<close>







section \<open>The result parser (test_runner.py)\<close>

text \<open>\<^verbatim>\<open>FAILED\s+([\w/\\\.]+)::(\w+)\<close>\<close>

definition failed_pattern :: re where
  "failed_pattern =
     cat [Str ''FAILED'', Rep Space True 1,
          Group (Rep (OneOf [Word, Lit CHR ''/'', Lit (CHR 0x5C), Lit CHR ''.'']) True 1),
          Str ''::'', Group (Rep Word True 1)]"

text \<open>\<^verbatim>\<open>_{5,}\s+(\S+)\s+_{5,}(.*?)(?=_{5,}|\Z)\<close> with \<^verbatim>\<open>DOTALL\<close>\<close>

definition error_block_pattern :: re where
  "error_block_pattern =
     cat [Rep (Lit CHR ''_'') True 5, Rep Space True 1, Group (Rep NonSpace True 1), Rep Space True 1,
          Rep (Lit CHR ''_'') True 5, Group (Rep DotAll False 0),
          Ahead (Alt (Rep (Lit CHR ''_'') True 5) Eos)]"

text \<open>\<^verbatim>\<open>([\w/\\]+\.py):(\d+)\<close>\<close>

definition file_line_pattern :: re where
  "file_line_pattern =
     cat [Group (Seq (Rep (OneOf [Word, Lit CHR ''/'', Lit (CHR 0x5C)]) True 1) (Str ''.py'')),
          Str '':'', Group (Rep Digit True 1)]"

text \<open>\<^verbatim>\<open>ERROR\s+collecting\s+([\w/\\\.]+)\s*.*?\n(.*?)(?=\n\S|\Z)\<close> with \<^verbatim>\<open>DOTALL\<close>\<close>

definition collection_pattern :: re where
  "collection_pattern =
     cat [Str ''ERROR'', Rep Space True 1, Str ''collecting'', Rep Space True 1,
          Group (Rep (OneOf [Word, Lit CHR ''/'', Lit (CHR 0x5C), Lit CHR ''.'']) True 1),
          Rep Space True 0, Rep DotAll False 0, Atom (Lit NL), Group (Rep DotAll False 0),
          Ahead (Alt (Seq (Atom (Lit NL)) (Atom NonSpace)) Eos)]"

text \<open>\<^verbatim>\<open>line\s+(\d+)\<close>\<close>

definition line_pattern :: re where
  "line_pattern = cat [Str ''line'', Rep Space True 1, Group (Rep Digit True 1)]"

text \<open>
  \<^verbatim>\<open>m.group(i)\<close>. Every group of the patterns above takes part in every match, so the list
  of groups has one entry for each.
\<close>

definition group :: "string list \<Rightarrow> nat \<Rightarrow> string" where
  "group gs i = gs ! (i - 1)"

text \<open>The message of a block: the last line that, trimmed, is not empty and does not start with an underscore.\<close>

definition block_message :: "string \<Rightarrow> string" where
  "block_message block =
     (case find (\<lambda>l. l \<noteq> [] \<and> \<not> startswith l ''_'') (map strip (rev (split_nl (strip block)))) of
        None \<Rightarrow> []
      | Some l \<Rightarrow> l)"

text \<open>The body of the loop over the delimited blocks; \<^verbatim>\<open>int\<close> may raise.\<close>

definition block_record :: "string list \<Rightarrow> py_error + failure" where
  "block_record gs =
     (let test_nm = group gs 1;
          block = group gs 2;
          file_line_match = re_search file_line_pattern block;
          file_path = (case file_line_match of Some m \<Rightarrow> group m 1 | None \<Rightarrow> ''unknown'')
      in
      case (case file_line_match of Some m \<Rightarrow> py_int (group m 2) | None \<Rightarrow> Inr 0) of
        Inl e \<Rightarrow> Inl e
      | Inr line_num \<Rightarrow>
          Inr \<lparr>test_name = strip test_nm, err_file = slashes file_path, err_line = line_num,
               error_message = block_message block\<rparr>)"

definition summary_record :: "string list \<Rightarrow> failure" where
  "summary_record gs =
     \<lparr>test_name = group gs 2, err_file = slashes (group gs 1), err_line = 0,
      error_message = ''Test '' @ group gs 2 @ '' failed''\<rparr>"

definition collection_record :: "string list \<Rightarrow> py_error + failure" where
  "collection_record gs =
     (let file_path = group gs 1;
          error_detail = group gs 2;
          line_match = re_search line_pattern error_detail
      in
      case (case line_match of Some m \<Rightarrow> py_int (group m 1) | None \<Rightarrow> Inr 0) of
        Inl e \<Rightarrow> Inl e
      | Inr line_num \<Rightarrow>
          Inr \<lparr>test_name = ''collection_error:'' @ file_path, err_file = slashes file_path,
               err_line = line_num, error_message = take 200 (strip error_detail)\<rparr>)"

text \<open>A loop that appends one record for each match and stops at the first raise.\<close>

fun collect :: "('a \<Rightarrow> py_error + 'b) \<Rightarrow> 'a list \<Rightarrow> py_error + 'b list" where
  "collect f [] = Inr []"
| "collect f (x # xs) =
     (case f x of
        Inl e \<Rightarrow> Inl e
      | Inr y \<Rightarrow> (case collect f xs of Inl e \<Rightarrow> Inl e | Inr ys \<Rightarrow> Inr (y # ys)))"

text \<open>
  \<^verbatim>\<open>parse_pytest_output\<close>. (The source also calls \<^verbatim>\<open>re.split\<close> and drops what it returns.)
\<close>

definition parse_pytest_output :: "string \<Rightarrow> string \<Rightarrow> py_error + failure list" where
  "parse_pytest_output output repo_path =
     (let failed_matches = findall failed_pattern output;
          error_blocks = findall error_block_pattern output
      in
      case collect block_record error_blocks of
        Inl e \<Rightarrow> Inl e
      | Inr errors1 \<Rightarrow>
          let errors2 = (if errors1 = [] \<and> failed_matches \<noteq> []
                         then errors1 @ map summary_record failed_matches else errors1);
              collection_errors = findall collection_pattern output
          in
          (case collect collection_record collection_errors of
             Inl e \<Rightarrow> Inl e
           | Inr errors3 \<Rightarrow> Inr (errors2 @ errors3)))"

section \<open>The single-flight guard (app.py)\<close>

text \<open>
  Two start requests against the server. A handler thread goes from \<open>Arrived\<close> through the
  guard (lines 108 to 110, under \<^verbatim>\<open>run_lock\<close>) to \<open>Rejected\<close> or \<open>Admitted\<close>, and from
  \<open>Admitted\<close> to \<open>Started\<close> when it has started the worker thread and answers 202. The
  worker goes from \<open>Spawned\<close> to \<open>Working\<close> when it sets the status to \<^verbatim>\<open>running\<close> under
  the lock (lines 72 to 75), and to \<open>Finished\<close> when the pipeline returns. Each action is one
  atomic step; the scheduler may take the enabled actions in any order.
\<close>

datatype handler_pc = Arrived | Rejected | Admitted | Started
datatype worker_pc = Unborn | Spawned | Working | Finished
datatype action = Guard nat | Launch nat | Begin nat | Finish nat

record server =
  run_status :: string
  handlers :: "handler_pc list"
  workers :: "worker_pc list"

definition idle_server :: server where
  "idle_server = \<lparr>run_status = ''idle'', handlers = [Arrived, Arrived], workers = [Unborn, Unborn]\<rparr>"

text \<open>One action; \<open>None\<close> when the action is not enabled.\<close>

fun act :: "server \<Rightarrow> action \<Rightarrow> server option" where
  "act s (Guard i) =
     (if i < length (handlers s) \<and> handlers s ! i = Arrived then
        (if run_status s = ''running'' then Some (s\<lparr>handlers := (handlers s)[i := Rejected]\<rparr>)
         else Some (s\<lparr>handlers := (handlers s)[i := Admitted]\<rparr>))
      else None)"
| "act s (Launch i) =
     (if i < length (handlers s) \<and> handlers s ! i = Admitted then
        Some (s\<lparr>handlers := (handlers s)[i := Started], workers := (workers s)[i := Spawned]\<rparr>)
      else None)"
| "act s (Begin i) =
     (if i < length (workers s) \<and> workers s ! i = Spawned then
        Some (s\<lparr>run_status := ''running'', workers := (workers s)[i := Working]\<rparr>)
      else None)"
| "act s (Finish i) =
     (if i < length (workers s) \<and> workers s ! i = Working then
        Some (s\<lparr>run_status := ''done'', workers := (workers s)[i := Finished]\<rparr>)
      else None)"

fun schedule :: "server \<Rightarrow> action list \<Rightarrow> server option" where
  "schedule s [] = Some s"
| "schedule s (a # as) = (case act s a of None \<Rightarrow> None | Some s' \<Rightarrow> schedule s' as)"

text \<open>The pipeline runs in flight: the workers that have begun and not finished.\<close>

definition running_count :: "server \<Rightarrow> nat" where
  "running_count s = length (filter (\<lambda>w. w = Working) (workers s))"

definition launched_count :: "server \<Rightarrow> nat" where
  "launched_count s = length (filter (\<lambda>w. w \<noteq> Unborn) (workers s))"

text \<open>
  Two sources for the parse-failure heuristics. For the first the parser reports
  \<^verbatim>\<open>expected ':'\<close> on line 3; the second is the specification's scenario A.
\<close>

definition example_source :: string where
  "example_source = ''for x in (1,'' @ [NL] @ ''# comment'' @ [NL] @ '')'' @ [NL] @ ''    pass''"


text \<open>
  Three outputs of a test run: the specification's scenario C, the same with a second
  summary line, and the same with a collection-error banner; and the record the parser
  makes from a summary line.
\<close>

definition scenario_c :: string where
  "scenario_c = ''FAILED tests/test_math.py::test_add''"

definition two_summaries :: string where
  "two_summaries = ''FAILED tests/test_math.py::test_add'' @ [NL] @ ''FAILED tests/test_math.py::test_sub''"

definition summary_and_banner :: string where
  "summary_and_banner =
     ''FAILED tests/test_math.py::test_add'' @ [NL] @ ''ERROR collecting tests/test_x.py'' @ [NL] @
     ''  File line 12'' @ [NL] @ ''E  SyntaxError'' @ [NL] @ ''next''"

definition summary_failure :: "string \<Rightarrow> string \<Rightarrow> failure" where
  "summary_failure path name =
     \<lparr>test_name = name, err_file = path, err_line = 0, error_message = ''Test '' @ name @ '' failed''\<rparr>"

text \<open>
  The length of the longest run of consecutive decimal digits in a text: \<open>cur\<close> is the
  length of the run in progress, \<open>best\<close> the longest run already closed.
\<close>

fun digit_run :: "nat \<Rightarrow> nat \<Rightarrow> string \<Rightarrow> nat" where
  "digit_run cur best [] = max cur best"
| "digit_run cur best (c # cs) =
     (if py_isdigit c then digit_run (Suc cur) best cs else digit_run 0 (max cur best) cs)"

definition longest_digit_run :: "string \<Rightarrow> nat" where
  "longest_digit_run s = digit_run 0 0 s"

text \<open>A failure block whose line number has 4301 digits.\<close>

definition long_line_number :: string where
  "long_line_number = ''_____ t _____a.py:'' @ replicate 4301 CHR ''1''"

section \<open>Properties of the text primitives\<close>

lemma last_dropWhile: "dropWhile P t \<noteq> [] \<Longrightarrow> last (dropWhile P t) = last t"
  by (induction t) (auto split: if_splits)

lemma rstrip_fixed: "u = [] \<or> \<not> py_isspace (last u) \<Longrightarrow> rstrip u = u"
proof (cases u rule: rev_cases)
  case Nil then show ?thesis by (simp add: rstrip_def)
next
  case (snoc ys y)
  assume "u = [] \<or> \<not> py_isspace (last u)"
  with snoc show ?thesis by (simp add: rstrip_def)
qed

lemma rstrip_last: "rstrip s \<noteq> [] \<Longrightarrow> \<not> py_isspace (last (rstrip s))"
  unfolding rstrip_def using hd_dropWhile[of py_isspace "rev s"]
  by (simp add: last_rev)

lemma strip_last: "strip s \<noteq> [] \<Longrightarrow> \<not> py_isspace (last (strip s))"
  unfolding strip_def lstrip_def using last_dropWhile[of py_isspace "rstrip s"] rstrip_last[of s]
  by (metis dropWhile.simps(1))

lemma strip_strip: "strip (strip s) = strip s"
proof -
  have "rstrip (strip s) = strip s" using strip_last[of s] by (intro rstrip_fixed) blast
  then show ?thesis by (simp add: strip_def lstrip_def)
qed

section \<open>Properties of reading and writing lines\<close>

lemma readlines_full: "line_ok l \<Longrightarrow> last l = NL \<Longrightarrow> readlines (l @ rest) = l # readlines rest"
proof (induction l)
  case Nil then show ?case by (simp add: line_ok_def)
next
  case (Cons c l)
  show ?case
  proof (cases "l = []")
    case True with Cons.prems show ?thesis by simp
  next
    case False
    with Cons.prems have "line_ok l" "last l = NL" "c \<noteq> NL" "c \<noteq> CR" by (auto simp: line_ok_def)
    with Cons.IH show ?thesis by simp
  qed
qed

lemma readlines_partial: "line_ok l \<Longrightarrow> last l \<noteq> NL \<Longrightarrow> readlines l = [l]"
proof (induction l)
  case Nil then show ?case by (simp add: line_ok_def)
next
  case (Cons c l)
  show ?case
  proof (cases "l = []")
    case True with Cons.prems show ?thesis by (simp add: line_ok_def)
  next
    case False
    with Cons.prems have "line_ok l" "last l \<noteq> NL" "c \<noteq> NL" "c \<noteq> CR" by (auto simp: line_ok_def)
    with Cons.IH show ?thesis by simp
  qed
qed

text \<open>Writing well-formed lines and reading them again gives the same lines.\<close>

lemma readlines_concat: "lines_ok ls \<Longrightarrow> readlines (concat ls) = ls"
proof (induction ls rule: lines_ok.induct)
  case 1 show ?case by simp
next
  case (2 l)
  then show ?case using readlines_full[of l "[]"] readlines_partial[of l] by (cases "last l = NL") auto
next
  case (3 l m ls)
  then show ?case using readlines_full[of l "concat (m # ls)"] by simp
qed

lemma lines_ok_Cons: "lines_ok (l # ls) \<longleftrightarrow> line_ok l \<and> (ls \<noteq> [] \<longrightarrow> last l = NL \<and> lines_ok ls)"
  by (cases ls) auto

lemma readlines_ok: "lines_ok (readlines s)"
proof (induction s rule: readlines.induct)
  case 1 show ?case by simp
next
  case (2 c cs)
  consider (nl) "c = NL" | (cr) "c \<noteq> NL" "c = CR" | (other) "c \<noteq> NL" "c \<noteq> CR" by blast
  then show ?case
  proof cases
    case nl
    with 2 show ?thesis by (simp add: lines_ok_Cons line_ok_def)
  next
    case cr
    with 2 show ?thesis by (cases cs) (auto simp: lines_ok_Cons line_ok_def)
  next
    case other
    with 2 have ih: "lines_ok (readlines cs)" by simp
    show ?thesis
    proof (cases "readlines cs")
      case Nil with other show ?thesis by (simp add: line_ok_def)
    next
      case (Cons l ls)
      with ih have "line_ok l" "ls \<noteq> [] \<longrightarrow> last l = NL \<and> lines_ok ls" by (auto simp: lines_ok_Cons)
      with other Cons show ?thesis by (auto simp: lines_ok_Cons line_ok_def)
    qed
  qed
qed

lemma lines_ok_pop: "lines_ok ls \<Longrightarrow> lines_ok (pop i ls)"
proof (induction ls arbitrary: i)
  case Nil then show ?case by (simp add: pop_def)
next
  case (Cons l ls)
  show ?case
  proof (cases i)
    case 0 with Cons.prems show ?thesis by (auto simp: pop_def lines_ok_Cons)
  next
    case (Suc k)
    have "pop (Suc k) (l # ls) = l # pop k ls" by (simp add: pop_def)
    with Cons Suc show ?thesis by (auto simp: lines_ok_Cons pop_def)
  qed
qed



text \<open>Text mode leaves a text without carriage returns as it is.\<close>

lemma concat_readlines: "CR \<notin> set s \<Longrightarrow> concat (readlines s) = s"
proof (induction s rule: readlines.induct)
  case 1 show ?case by simp
next
  case (2 c cs)
  from "2.prems" have c: "c \<noteq> CR" and cs: "CR \<notin> set cs" by auto
  show ?case
  proof (cases "c = NL")
    case True
    with 2 cs show ?thesis by simp
  next
    case False
    with 2 c cs have ih: "concat (readlines cs) = cs" by simp
    show ?thesis
    proof (cases "readlines cs")
      case Nil
      with ih False c show ?thesis by simp
    next
      case (Cons l ls)
      with ih False c show ?thesis by auto
    qed
  qed
qed

section \<open>Properties of the patch engine\<close>

lemma find_line_None: "find_line i old ls = None \<longleftrightarrow> (\<forall>l \<in> set ls. strip (chomp l) \<noteq> strip old)"
  by (induction ls arbitrary: i) auto

lemma find_line_Some:
  "find_line i old ls = Some j \<Longrightarrow>
   i \<le> j \<and> j - i < length ls \<and> strip (chomp (ls ! (j - i))) = strip old \<and>
   (\<forall>k < j - i. strip (chomp (ls ! k)) \<noteq> strip old)"
proof (induction ls arbitrary: i)
  case Nil then show ?case by simp
next
  case (Cons l ls)
  show ?case
  proof (cases "strip (chomp l) = strip old")
    case True with Cons.prems show ?thesis by simp
  next
    case False
    with Cons.prems have f: "find_line (Suc i) old ls = Some j" by simp
    from Cons.IH[OF f] have a: "Suc i \<le> j" "j - Suc i < length ls"
      "strip (chomp (ls ! (j - Suc i))) = strip old"
      "\<forall>k < j - Suc i. strip (chomp (ls ! k)) \<noteq> strip old" by auto
    from a(1) have e: "j - i = Suc (j - Suc i)" by simp
    show ?thesis using a False unfolding e by (auto simp: less_Suc_eq_0_disj)
  qed
qed

text \<open>The loop handles a list of fixes piece by piece.\<close>

lemma apply_fixes_at:
  "apply_fixes repo files pre = (files1, rs1) \<Longrightarrow>
   apply_fixes repo files (pre @ post) =
     (case apply_fixes repo files1 post of (files2, rs2) \<Rightarrow> (files2, rs1 @ rs2))"
  by (induction pre arbitrary: files files1 rs1) (auto split: prod.splits)


lemma readlines_pop: "readlines (writelines (pop j (readlines content))) = pop j (readlines content)"
  unfolding writelines_def by (intro readlines_concat lines_ok_pop readlines_ok)

lemma length_pop: "j < length ls \<Longrightarrow> length (pop j ls) + 1 = length ls"
  by (auto simp: pop_def)

lemmas example_simps = example_files_def example_fix_def os_path_join_def startswith_def endswith_def
  get_or_empty_def strip_def lstrip_def rstrip_def py_isspace_def chomp_def rstrip_chr_def


text \<open>
  Claim C1 (patch safety). A fix whose trimmed \<^verbatim>\<open>old_code\<close> is not empty and equals the
  trimmed text of no line of its file is marked \<^verbatim>\<open>failed\<close>, and the files after it are the
  files before it. This holds wherever the fix stands in the list handed to
  \<^verbatim>\<open>apply_fixes\<close>: \<open>files1\<close> is what the fixes before it left.
\<close>

theorem patch_safety:
  assumes reach: "apply_fixes repo_path files pre = (files1, rs1)"
      and nonempty: "strip (get_or_empty (old_code fx)) \<noteq> []"
      and nomatch: "\<forall>content. files1 (os_path_join repo_path (file' fx)) = Some content \<longrightarrow>
                      (\<forall>l \<in> set (readlines content). strip (chomp l) \<noteq> strip (get_or_empty (old_code fx)))"
  shows "\<exists>r files2 rs2.
           apply_fixes repo_path files (pre @ fx # post) = (files2, rs1 @ r # rs2) \<and>
           status r = Some ''failed'' \<and>
           apply_fixes repo_path files (pre @ [fx]) = (files1, rs1 @ [r])"
proof -
  let ?old = "strip (get_or_empty (old_code fx))"
  have step: "\<exists>msg. apply_fix repo_path files1 fx = (files1, mark_failed fx msg)"
  proof (cases "files1 (os_path_join repo_path (file' fx))")
    case None
    then show ?thesis by (auto simp add: apply_fix_def)
  next
    case (Some content)
    with nomatch have nm: "\<forall>l \<in> set (readlines content). strip (chomp l) \<noteq> ?old" by simp
    then have fl: "find_line 0 ?old (readlines content) = None"
      by (simp add: find_line_None strip_strip)
    show ?thesis
    proof (cases "line fx - 1 < 0 \<or> line fx - 1 \<ge> int (length (readlines content))")
      case True
      with Some show ?thesis by (auto simp add: apply_fix_def Let_def)
    next
      case False
      then have "nat (line fx - 1) < length (readlines content)" by linarith
      then have "readlines content ! nat (line fx - 1) \<in> set (readlines content)" by (rule nth_mem)
      with nm have "strip ?old \<noteq> strip (chomp (readlines content ! nat (line fx - 1)))"
        by (metis strip_strip)
      with Some False fl nonempty show ?thesis by (auto simp add: apply_fix_def Let_def)
    qed
  qed
  then obtain msg where s: "apply_fix repo_path files1 fx = (files1, mark_failed fx msg)" ..
  obtain files2 rs2 where p: "apply_fixes repo_path files1 post = (files2, rs2)" by (cases "apply_fixes repo_path files1 post")
  have "apply_fixes repo_path files (pre @ fx # post) = (files2, rs1 @ mark_failed fx msg # rs2)"
    using apply_fixes_at[OF reach, of "fx # post"] s p by simp
  moreover have "apply_fixes repo_path files (pre @ [fx]) = (files1, rs1 @ [mark_failed fx msg])"
    using apply_fixes_at[OF reach, of "[fx]"] s by simp
  moreover have "status (mark_failed fx msg) = Some ''failed''" by (simp add: mark_failed_def)
  ultimately show ?thesis by blast
qed

theorem patch_safety_witness:
  "apply_fixes ''repo'' example_files [] = (example_files, []) \<and>
   strip (get_or_empty (old_code (example_fix 2 ''z = 3'' ''z = 4''))) \<noteq> [] \<and>
   (\<exists>r files2 rs2.
      apply_fixes ''repo'' example_files ([] @ example_fix 2 ''z = 3'' ''z = 4'' # []) = (files2, [] @ r # rs2) \<and>
      status r = Some ''failed'' \<and>
      apply_fixes ''repo'' example_files ([] @ [example_fix 2 ''z = 3'' ''z = 4'']) = (example_files, [] @ [r]))"
proof -
  have h1: "apply_fixes ''repo'' example_files [] = (example_files, [])" by simp
  have h2: "strip (get_or_empty (old_code (example_fix 2 ''z = 3'' ''z = 4''))) \<noteq> []"
    by (simp add: example_simps)
  have h3: "\<forall>content. example_files (os_path_join ''repo'' (file' (example_fix 2 ''z = 3'' ''z = 4''))) = Some content \<longrightarrow>
      (\<forall>l \<in> set (readlines content).
         strip (chomp l) \<noteq> strip (get_or_empty (old_code (example_fix 2 ''z = 3'' ''z = 4''))))"
    by (simp add: example_simps)
  from patch_safety[OF h1 h2 h3, of "[]"] h1 h2 show ?thesis by blast
qed






text \<open>
  The step of a deletion: a fix with empty \<^verbatim>\<open>new_code\<close> whose file exists, whose index is
  in range and whose trimmed \<^verbatim>\<open>old_code\<close> is empty or equals the trimmed text of some line
  is applied, and the file is written back as the lines read without the targeted line
  \<open>j\<close>.
\<close>

lemma deletion_step:
  assumes reach: "apply_fixes repo_path files pre = (files1, rs1)"
      and del: "get_or_empty (new_code fx) = []"
      and exist: "files1 (os_path_join repo_path (file' fx)) = Some content"
      and lo: "1 \<le> line fx"
      and hi: "line fx \<le> int (length (readlines content))"
      and found: "strip (get_or_empty (old_code fx)) = [] \<or>
                  (\<exists>l \<in> set (readlines content). strip (chomp l) = strip (get_or_empty (old_code fx)))"
  shows "\<exists>j. j < length (readlines content) \<and>
             targeted (strip (get_or_empty (old_code fx))) (nat (line fx - 1)) (readlines content) j \<and>
             apply_fixes repo_path files (pre @ [fx]) =
               (files1(os_path_join repo_path (file' fx) \<mapsto> writelines (pop j (readlines content))),
                rs1 @ [mark_applied fx])"
proof -
  let ?path = "os_path_join repo_path (file' fx)"
  let ?ls = "readlines content"
  let ?old = "strip (get_or_empty (old_code fx))"
  let ?i0 = "nat (line fx - 1)"
  from lo hi have i0: "?i0 < length ?ls" by linarith
  from lo hi have r: "\<not> (line fx - 1 < 0 \<or> line fx - 1 \<ge> int (length ?ls))" by linarith
  from del have new: "new_code fx = Some [] \<or> new_code fx = None"
    by (auto simp: get_or_empty_def split: option.splits)
  have "\<exists>j. j < length ?ls \<and> targeted ?old ?i0 ?ls j \<and>
          apply_fix repo_path files1 fx = (files1(?path \<mapsto> writelines (pop j ?ls)), mark_applied fx)"
  proof (cases "?old \<noteq> [] \<and> strip ?old \<noteq> strip (chomp (?ls ! ?i0))")
    case False
    then have "targeted ?old ?i0 ?ls ?i0" by (auto simp: targeted_def strip_strip)
    moreover have "apply_fix repo_path files1 fx = (files1(?path \<mapsto> writelines (pop ?i0 ?ls)), mark_applied fx)"
      using exist r False new by (auto simp: apply_fix_def Let_def edit_lines_def)
    ultimately show ?thesis using i0 by blast
  next
    case True
    with found have "\<exists>l \<in> set ?ls. strip (chomp l) = strip ?old" by (simp add: strip_strip)
    then have "find_line 0 ?old ?ls \<noteq> None" by (simp add: find_line_None)
    then obtain j where fl: "find_line 0 ?old ?ls = Some j" by blast
    from find_line_Some[OF fl] have j: "j < length ?ls" "strip (chomp (?ls ! j)) = ?old"
      "\<forall>k < j. strip (chomp (?ls ! k)) \<noteq> ?old" by (simp_all add: strip_strip)
    from True j have "targeted ?old ?i0 ?ls j" by (auto simp: targeted_def strip_strip)
    moreover have "apply_fix repo_path files1 fx = (files1(?path \<mapsto> writelines (pop j ?ls)), mark_applied fx)"
      using exist r True new fl by (auto simp: apply_fix_def Let_def edit_lines_def)
    ultimately show ?thesis using j(1) by blast
  qed
  then obtain j where j: "j < length ?ls" "targeted ?old ?i0 ?ls j"
    and s: "apply_fix repo_path files1 fx = (files1(?path \<mapsto> writelines (pop j ?ls)), mark_applied fx)" by blast
  have "apply_fixes repo_path files (pre @ [fx]) =
          (files1(?path \<mapsto> writelines (pop j ?ls)), rs1 @ [mark_applied fx])"
    using apply_fixes_at[OF reach, of "[fx]"] s by simp
  with j show ?thesis by blast
qed

text \<open>
  The deletion law on the lines as text mode reads them: the file read again has the
  earlier lines without line \<open>j\<close>, one line fewer, and no other file changes.
\<close>

theorem deletion_law:
  assumes reach: "apply_fixes repo_path files pre = (files1, rs1)"
      and del: "get_or_empty (new_code fx) = []"
      and exist: "files1 (os_path_join repo_path (file' fx)) = Some content"
      and lo: "1 \<le> line fx"
      and hi: "line fx \<le> int (length (readlines content))"
      and found: "strip (get_or_empty (old_code fx)) = [] \<or>
                  (\<exists>l \<in> set (readlines content). strip (chomp l) = strip (get_or_empty (old_code fx)))"
  shows "\<exists>files2 content2 j.
           apply_fixes repo_path files (pre @ [fx]) = (files2, rs1 @ [mark_applied fx]) \<and>
           files2 (os_path_join repo_path (file' fx)) = Some content2 \<and>
           (\<forall>p. p \<noteq> os_path_join repo_path (file' fx) \<longrightarrow> files2 p = files1 p) \<and>
           j < length (readlines content) \<and>
           targeted (strip (get_or_empty (old_code fx))) (nat (line fx - 1)) (readlines content) j \<and>
           readlines content2 = take j (readlines content) @ drop (Suc j) (readlines content) \<and>
           length (readlines content2) + 1 = length (readlines content)"
proof -
  let ?path = "os_path_join repo_path (file' fx)"
  let ?ls = "readlines content"
  from deletion_step[OF reach del exist lo hi found] obtain j where
    j: "j < length ?ls" "targeted (strip (get_or_empty (old_code fx))) (nat (line fx - 1)) ?ls j"
    and a: "apply_fixes repo_path files (pre @ [fx]) =
              (files1(?path \<mapsto> writelines (pop j ?ls)), rs1 @ [mark_applied fx])" by blast
  let ?files2 = "files1(?path \<mapsto> writelines (pop j ?ls))"
  have b: "?files2 ?path = Some (writelines (pop j ?ls))" by simp
  have c: "\<forall>p. p \<noteq> ?path \<longrightarrow> ?files2 p = files1 p" by simp
  have d: "readlines (writelines (pop j ?ls)) = take j ?ls @ drop (Suc j) ?ls"
    using readlines_pop[of j content] by (simp add: pop_def)
  have e: "length (readlines (writelines (pop j ?ls))) + 1 = length ?ls"
    using readlines_pop[of j content] length_pop[OF j(1)] by simp
  from a b c d e j show ?thesis by blast
qed

text \<open>
  On a file without carriage returns the law holds of the bytes: the lines read make up
  the file, and the file written back is these lines without line \<open>j\<close>, each as it was.
\<close>

lemma deletion_bytes:
  assumes reach: "apply_fixes repo_path files pre = (files1, rs1)"
      and del: "get_or_empty (new_code fx) = []"
      and exist: "files1 (os_path_join repo_path (file' fx)) = Some content"
      and lo: "1 \<le> line fx"
      and hi: "line fx \<le> int (length (readlines content))"
      and found: "strip (get_or_empty (old_code fx)) = [] \<or>
                  (\<exists>l \<in> set (readlines content). strip (chomp l) = strip (get_or_empty (old_code fx)))"
      and lf: "CR \<notin> set content"
  shows "\<exists>j. j < length (readlines content) \<and>
             targeted (strip (get_or_empty (old_code fx))) (nat (line fx - 1)) (readlines content) j \<and>
             concat (readlines content) = content \<and>
             apply_fixes repo_path files (pre @ [fx]) =
               (files1(os_path_join repo_path (file' fx) \<mapsto>
                         concat (take j (readlines content) @ drop (Suc j) (readlines content))),
                rs1 @ [mark_applied fx])"
  using deletion_step[OF reach del exist lo hi found] concat_readlines[OF lf]
  by (simp add: writelines_def pop_def)

theorem deletion_law_witness:
  "apply_fixes ''repo'' example_files [] = (example_files, []) \<and>
   get_or_empty (new_code (example_fix 1 ''y = 2'' [])) = [] \<and>
   example_files (os_path_join ''repo'' (file' (example_fix 1 ''y = 2'' []))) =
     Some (''import os'' @ [NL] @ ''x = 1'' @ [NL] @ ''  y = 2'' @ [NL]) \<and>
   1 \<le> line (example_fix 1 ''y = 2'' []) \<and>
   line (example_fix 1 ''y = 2'' []) \<le> int (length (readlines (''import os'' @ [NL] @ ''x = 1'' @ [NL] @ ''  y = 2'' @ [NL]))) \<and>
   (strip (get_or_empty (old_code (example_fix 1 ''y = 2'' []))) = [] \<or>
    (\<exists>l \<in> set (readlines (''import os'' @ [NL] @ ''x = 1'' @ [NL] @ ''  y = 2'' @ [NL])).
       strip (chomp l) = strip (get_or_empty (old_code (example_fix 1 ''y = 2'' []))))) \<and>
   (\<exists>files2 content2 j.
      apply_fixes ''repo'' example_files ([] @ [example_fix 1 ''y = 2'' []]) =
        (files2, [] @ [mark_applied (example_fix 1 ''y = 2'' [])]) \<and>
      files2 (os_path_join ''repo'' (file' (example_fix 1 ''y = 2'' []))) = Some content2 \<and>
      (\<forall>p. p \<noteq> os_path_join ''repo'' (file' (example_fix 1 ''y = 2'' [])) \<longrightarrow> files2 p = example_files p) \<and>
      j < length (readlines (''import os'' @ [NL] @ ''x = 1'' @ [NL] @ ''  y = 2'' @ [NL])) \<and>
      targeted (strip (get_or_empty (old_code (example_fix 1 ''y = 2'' []))))
        (nat (line (example_fix 1 ''y = 2'' []) - 1))
        (readlines (''import os'' @ [NL] @ ''x = 1'' @ [NL] @ ''  y = 2'' @ [NL])) j \<and>
      readlines content2 =
        take j (readlines (''import os'' @ [NL] @ ''x = 1'' @ [NL] @ ''  y = 2'' @ [NL])) @
        drop (Suc j) (readlines (''import os'' @ [NL] @ ''x = 1'' @ [NL] @ ''  y = 2'' @ [NL])) \<and>
      length (readlines content2) + 1 =
        length (readlines (''import os'' @ [NL] @ ''x = 1'' @ [NL] @ ''  y = 2'' @ [NL])))"
proof -
  let ?c = "''import os'' @ [NL] @ ''x = 1'' @ [NL] @ ''  y = 2'' @ [NL]"
  let ?fx = "example_fix 1 ''y = 2'' []"
  have h1: "apply_fixes ''repo'' example_files [] = (example_files, [])" by simp
  have h2: "get_or_empty (new_code ?fx) = []" by (simp add: example_simps)
  have h3: "example_files (os_path_join ''repo'' (file' ?fx)) = Some ?c" by (simp add: example_simps)
  have h4: "1 \<le> line ?fx" by (simp add: example_fix_def)
  have h5: "line ?fx \<le> int (length (readlines ?c))" by (simp add: example_fix_def)
  have h6: "strip (get_or_empty (old_code ?fx)) = [] \<or>
    (\<exists>l \<in> set (readlines ?c). strip (chomp l) = strip (get_or_empty (old_code ?fx)))"
    by (simp add: example_simps)
  from deletion_law[OF h1 h2 h3 h4 h5 h6] h1 h2 h3 h4 h5 h6 show ?thesis by blast
qed

text \<open>
  Claim C4 (deletion law) fails on a file whose lines end with \<^verbatim>\<open>\r\n\<close>. The file is read
  and written in text mode, so every terminator comes back as \<^verbatim>\<open>\n\<close>: deleting the second
  of three lines removes that line and also rewrites the two lines that stay, where the
  claim has every other line unchanged.
\<close>

theorem deletion_rewrites_terminators:
  "apply_fixes ''repo'' crlf_files [example_fix 2 ''b'' []] =
     (crlf_files(''repo/a.py'' \<mapsto> ''a'' @ [NL] @ ''c'' @ [NL]), [mark_applied (example_fix 2 ''b'' [])]) \<and>
   ''a'' @ [NL] @ ''c'' @ [NL] \<noteq> crlf_expected"
  by (simp add: crlf_files_def crlf_expected_def example_simps apply_fix_def edit_lines_def pop_def
        writelines_def mark_applied_def Let_def)

section \<open>Properties of the indentation inference\<close>

lemma scan_back_Suc:
  "i < length lines \<Longrightarrow>
   scan_back lines (Suc i) =
     (if \<not> counts (lines ! i) then scan_back lines i
      else if opens_block (lines ! i) then Inr (replicate (indent_width (lines ! i) + 4) CHR '' '')
      else if indent_width (lines ! i) mod 4 = 0 then Inr (replicate (indent_width (lines ! i)) CHR '' '')
      else scan_back lines i)"
  by (simp add: counts_def opens_block_def Let_def split: unit.split)

lemma spec_indent_Suc:
  "spec_indent lines (Suc i) =
     (if settles (lines ! i) then
        (if opens_block (lines ! i) then replicate (indent_width (lines ! i) + 4) CHR '' ''
         else replicate (indent_width (lines ! i)) CHR '' '')
      else spec_indent lines i)"
  by (simp add: spec_indent_def)

lemma scan_back_spec: "n \<le> length lines \<Longrightarrow> scan_back lines n = Inr (spec_indent lines n)"
proof (induction n)
  case 0
  show ?case by (simp add: spec_indent_def)
next
  case (Suc n)
  then have ih: "scan_back lines n = Inr (spec_indent lines n)" and n: "n < length lines" by simp_all
  show ?case
    unfolding scan_back_Suc[OF n] spec_indent_Suc ih by (simp add: settles_def)
qed

lemma indent_index_error:
  "int (length lines) < idx \<Longrightarrow> determine_correct_indent lines idx = Inl IndexError"
proof -
  assume a: "int (length lines) < idx"
  show ?thesis
  proof (cases "nat idx")
    case 0 with a show ?thesis by simp
  next
    case (Suc n)
    with a have "length lines \<le> n" by linarith
    with Suc show ?thesis by (simp add: determine_correct_indent_def)
  qed
qed

lemmas indent_simps = spec_indent_def settles_def counts_def opens_block_def indent_width_def
  strip_def lstrip_def rstrip_def py_isspace_def startswith_def endswith_def example_lines_def

text \<open>
  Claim C6. For a target index within the line sequence (or just past its end), the
  inference returns what the backward scan of the specification gives: the nearest earlier
  line that is neither blank nor a comment and that either ends with a colon (its
  indentation plus four spaces) or is indented by a multiple of four (that indentation);
  lines indented otherwise are passed over; with no such line the result is empty.
\<close>

theorem indent_inference:
  assumes "idx \<le> int (length lines)"
  shows "determine_correct_indent lines idx = Inr (spec_indent lines (nat idx))"
  using assms scan_back_spec[of "nat idx" lines] by (simp add: determine_correct_indent_def)


theorem indent_inference_witness:
  "(4::int) \<le> int (length example_lines) \<and>
   determine_correct_indent example_lines 4 = Inr ''    ''"
proof -
  have h: "(4::int) \<le> int (length example_lines)" by (simp add: example_lines_def)
  have n: "nat 4 = Suc (Suc (Suc (Suc 0)))" by simp
  have r: "replicate 4 CHR '' '' = ''    ''" by (simp add: numeral_eq_Suc)
  have "spec_indent example_lines (nat 4) = ''    ''"
    unfolding n by (simp add: indent_simps r)
  with indent_inference[OF h] h show ?thesis by simp
qed

section \<open>Properties of the orchestrator\<close>

subsection \<open>Counting the test runs\<close>

lemma within_give: "within 0 (give a)"
  by (simp add: within_def give_def)

lemma within_assign: "(\<And>s. test_runs (f s) = test_runs s) \<Longrightarrow> within 0 (assign f)"
  by (simp add: within_def assign_def)

lemma test_runs_note_raise [simp]: "test_runs (note_raise e s) = test_runs s"
  by (simp add: note_raise_def split: option.split)

lemma within_call: "within 0 (call f)"
  by (simp add: within_def call_def split: prod.split sum.split)

lemma within_andthen:
  assumes "within a m" and "\<And>x. within b (f x)"
  shows "within (a + b) (andthen m f)"
  unfolding within_def
proof
  fix s
  obtain r s' where ms: "m s = (r, s')" by (cases "m s")
  from assms(1) have "test_runs (snd (m s)) \<le> test_runs s + a" by (simp add: within_def)
  with ms have a: "test_runs s' \<le> test_runs s + a" by simp
  show "test_runs (snd (andthen m f s)) \<le> test_runs s + (a + b)"
  proof (cases r)
    case (Inl e)
    with ms a show ?thesis by (simp add: andthen_def)
  next
    case (Inr x)
    from assms(2)[of x] have "test_runs (snd (f x s')) \<le> test_runs s' + b" by (simp add: within_def)
    with Inr ms a show ?thesis by (simp add: andthen_def)
  qed
qed

lemma within_first: "within 0 m \<Longrightarrow> (\<And>x. within n (f x)) \<Longrightarrow> within n (andthen m f)"
  using within_andthen[of 0 m n f] by simp

lemma within_rest: "within n m \<Longrightarrow> (\<And>x. within 0 (f x)) \<Longrightarrow> within n (andthen m f)"
  using within_andthen[of n m 0 f] by simp

lemma within_steps_Nil: "within 0 (steps [])"
  by (simp add: within_give)

lemma within_steps_Cons: "within 0 m \<Longrightarrow> within 0 (steps ms) \<Longrightarrow> within 0 (steps (m # ms))"
  by (simp add: within_first)

lemma within_if: "(c \<Longrightarrow> within n a) \<Longrightarrow> (\<not> c \<Longrightarrow> within n b) \<Longrightarrow> within n (if c then a else b)"
  by simp

lemma within_choice: "within n a \<Longrightarrow> within n b \<Longrightarrow> within n (\<lambda>s. if P s then a s else b s)"
  by (simp add: within_def)

lemma within_option: "within n a \<Longrightarrow> (\<And>x. within n (b x)) \<Longrightarrow> within n (case v of None \<Rightarrow> a | Some x \<Rightarrow> b x)"
  by (cases v) simp_all

lemma within_say: "within 0 (say E)"
  by (simp add: say_def within_call)

lemma within_says: "within 0 (says E n)"
  by (induction n) (simp_all add: within_give within_first within_say)

lemma within_update_status: "within 0 (update_status E cb msg)"
  unfolding update_status_def
  by (intro within_first within_say within_option within_give within_call)

lemma within_emit: "within 0 (emit cb t)"
  unfolding emit_def
  by (intro within_first within_assign within_option within_give within_call) simp

lemma within_clock: "within 0 (clock E)"
  by (simp add: within_def clock_def)

lemma within_apply_and_count: "within 0 (apply_and_count rp fxs)"
  by (simp add: within_def apply_and_count_def split: prod.split)

lemma within_run_tests_step: "within 1 (run_tests_step E rp cmd)"
  by (simp add: within_def run_tests_step_def call_def split: prod.split sum.split)

lemmas within_intros = within_first within_steps_Nil within_steps_Cons within_if within_give
  within_call within_say within_says within_update_status within_emit within_clock
  within_apply_and_count within_assign

lemmas state_updates = append_iteration_def set_final_status_def add_failures_def

lemma within_deterministic_pass: "within 0 (deterministic_pass E cb rp b)"
  unfolding deterministic_pass_def
  by (intro within_intros) (simp_all add: state_updates)

lemma within_iteration_body: "within 1 (iteration_body E cb rp an b it)"
  unfolding iteration_body_def Let_def
  apply (rule within_first)
   apply (intro within_intros)
  apply (rule within_first)
   apply (rule within_clock)
  apply (rule within_first)
   apply (intro within_intros)
  apply (rule within_rest)
   apply (rule within_run_tests_step)
  apply (intro within_intros)
                      apply (simp_all add: state_updates)
  done

lemma within_iteration_loop: "within (length its) (iteration_loop E cb rp an b its)"
proof (induction its)
  case Nil
  have "within 0 (\<lambda>s. if final_status (result s) = ''RUNNING''
          then steps [assign (set_final_status ''MAX_ITERATIONS''), say E, emit cb ''max_iterations''] s
          else give () s)"
    by (intro within_choice within_intros) (simp add: state_updates)
  then show ?case by simp
next
  case (Cons it its)
  have "within (1 + length its)
          (andthen (iteration_body E cb rp an b it)
             (\<lambda>c. case c of Continue \<Rightarrow> iteration_loop E cb rp an b its | Break \<Rightarrow> give ()))"
  proof (rule within_andthen[OF within_iteration_body])
    fix c
    show "within (length its) (case c of Continue \<Rightarrow> iteration_loop E cb rp an b its | Break \<Rightarrow> give ())"
    proof (cases c)
      case Continue
      with Cons.IH show ?thesis by simp
    next
      case Break
      then show ?thesis by (simp add: within_def give_def)
    qed
  qed
  then show ?case by simp
qed

lemma length_iteration_range: "length iteration_range = MAX_ITERATIONS"
  by (simp add: iteration_range_def)

lemma within_pipeline_body: "within MAX_ITERATIONS (pipeline_body E cb url team leader)"
proof -
  have loop: "within MAX_ITERATIONS (iteration_loop E cb rp an b iteration_range)" for rp an b
    using within_iteration_loop[of iteration_range E cb rp an b] by (simp add: length_iteration_range)
  show ?thesis
    unfolding pipeline_body_def
    by (intro within_intros within_deterministic_pass loop) simp_all
qed

lemma within_handler: "within 0 (handler E cb e)"
  unfolding handler_def by (intro within_intros) simp

lemma within_summary: "within 0 (summary E cb t)"
proof -
  have "within 0 (\<lambda>s :: 'a pstate. (Inr (result s), s))"
    by (simp add: within_def)
  then show ?thesis
    unfolding summary_def by (intro within_intros) simp_all
qed

text \<open>
  Claim C2 (termination). \<^verbatim>\<open>run_pipeline\<close> is a total function of its collaborators and
  callbacks: the loop runs over the fixed range \<open>iteration_range\<close>. Whatever the
  collaborators and the callbacks do, and so also when the provider keeps returning fixes
  that cannot be applied, and whether the function returns or an exception leaves it, the
  test runner is called at most \<open>MAX_ITERATIONS + 1\<close> times.
\<close>

theorem bounded_test_runs:
  "test_runs (snd (run_pipeline E cb w url team leader)) \<le> MAX_ITERATIONS + 1"
proof -
  let ?s0 = "initial_state w url team leader"
  obtain r s where b: "pipeline_body E cb url team leader ?s0 = (r, s)"
    by (cases "pipeline_body E cb url team leader ?s0")
  have "test_runs (snd (pipeline_body E cb url team leader ?s0)) \<le> test_runs ?s0 + MAX_ITERATIONS"
    using within_pipeline_body[of E cb url team leader] unfolding within_def by blast
  with b have s: "test_runs s \<le> MAX_ITERATIONS" by (simp add: initial_state_def)
  have fin: "test_runs (snd (summary E cb t s')) \<le> test_runs s'" for t s'
    using within_summary[of E cb t] unfolding within_def by simp
  have han: "within 0 (andthen (handler E cb e) (\<lambda>_. summary E cb t))" for e t
    by (intro within_first within_handler within_summary)
  have han': "test_runs (snd (andthen (handler E cb e) (\<lambda>_. summary E cb t) s')) \<le> test_runs s'" for e t s'
    using han[of e t] unfolding within_def by simp
  show ?thesis
  proof (cases r)
    case (Inl e)
    with b han'[of e "time_time E w" s] s show ?thesis by (simp add: run_pipeline_def)
  next
    case (Inr u)
    with b fin[of "time_time E w" s] s show ?thesis by (simp add: run_pipeline_def)
  qed
qed

subsection \<open>The first raise\<close>

lemma traced_give: "traced (give a)"
  by (simp add: traced_def give_def)

lemma traced_assign: "(\<And>s. first_raise (f s) = first_raise s) \<Longrightarrow> traced (assign f)"
  by (simp add: traced_def assign_def)

lemma traced_call: "traced (call f)"
  by (simp add: traced_def call_def note_raise_def split: prod.split sum.split)

lemma traced_andthen:
  fixes m :: "('a, 'x) step"
  assumes "traced m" and "\<And>x. traced (f x)"
  shows "traced (andthen m f)"
  unfolding traced_def
proof (intro allI impI)
  fix s :: "'x pstate"
  assume n: "first_raise s = None"
  obtain r s' where ms: "m s = (r, s')" by (cases "m s")
  show "case andthen m f s of (Inl e, s') \<Rightarrow> first_raise s' = Some (e, result s')
        | (Inr a, s') \<Rightarrow> first_raise s' = None"
  proof (cases r)
    case (Inl e)
    from assms(1) n have "case m s of (Inl e, s') \<Rightarrow> first_raise s' = Some (e, result s')
        | (Inr a, s') \<Rightarrow> first_raise s' = None" by (simp add: traced_def)
    with Inl ms show ?thesis by (simp add: andthen_def)
  next
    case (Inr x)
    from assms(1) n have "case m s of (Inl e, s') \<Rightarrow> first_raise s' = Some (e, result s')
        | (Inr a, s') \<Rightarrow> first_raise s' = None" by (simp add: traced_def)
    with Inr ms have "first_raise s' = None" by simp
    with assms(2)[of x] have "case f x s' of (Inl e, s'') \<Rightarrow> first_raise s'' = Some (e, result s'')
        | (Inr a, s'') \<Rightarrow> first_raise s'' = None" by (simp add: traced_def)
    with Inr ms show ?thesis by (simp add: andthen_def)
  qed
qed

lemma traced_steps_Nil: "traced (steps [])"
  by (simp add: traced_give)

lemma traced_steps_Cons: "traced m \<Longrightarrow> traced (steps ms) \<Longrightarrow> traced (steps (m # ms))"
  by (simp add: traced_andthen)

lemma traced_if: "(c \<Longrightarrow> traced a) \<Longrightarrow> (\<not> c \<Longrightarrow> traced b) \<Longrightarrow> traced (if c then a else b)"
  by simp

lemma traced_choice: "traced a \<Longrightarrow> traced b \<Longrightarrow> traced (\<lambda>s. if P s then a s else b s)"
  by (simp add: traced_def)

lemma traced_option: "traced a \<Longrightarrow> (\<And>x. traced (b x)) \<Longrightarrow> traced (case v of None \<Rightarrow> a | Some x \<Rightarrow> b x)"
  by (cases v) simp_all

lemma traced_say: "traced (say E)"
  by (simp add: say_def traced_call)

lemma traced_says: "traced (says E n)"
  by (induction n) (simp_all add: traced_give traced_andthen traced_say)

lemma traced_update_status: "traced (update_status E cb msg)"
  unfolding update_status_def
  by (intro traced_andthen traced_say traced_option traced_give traced_call)

lemma traced_emit: "traced (emit cb t)"
  unfolding emit_def
  by (intro traced_andthen traced_assign traced_option traced_give traced_call) simp

lemma traced_clock: "traced (clock E)"
  by (simp add: traced_def clock_def)

lemma traced_apply_and_count: "traced (apply_and_count rp fxs)"
  by (simp add: traced_def apply_and_count_def split: prod.split)

lemma traced_run_tests_step: "traced (run_tests_step E rp cmd)"
  by (simp add: traced_def run_tests_step_def call_def note_raise_def split: prod.split sum.split)

lemmas traced_intros = traced_andthen traced_steps_Nil traced_steps_Cons traced_if traced_give
  traced_call traced_say traced_says traced_update_status traced_emit traced_clock
  traced_apply_and_count traced_run_tests_step traced_assign

lemma traced_deterministic_pass: "traced (deterministic_pass E cb rp b)"
  unfolding deterministic_pass_def
  by (intro traced_intros) (simp_all add: state_updates)

lemma traced_iteration_body: "traced (iteration_body E cb rp an b it)"
  unfolding iteration_body_def Let_def
  by (intro traced_intros) (simp_all add: state_updates)

lemma traced_iteration_loop: "traced (iteration_loop E cb rp an b its)"
proof (induction its)
  case Nil
  have "traced (\<lambda>s. if final_status (result s) = ''RUNNING''
          then steps [assign (set_final_status ''MAX_ITERATIONS''), say E, emit cb ''max_iterations''] s
          else give () s)"
    by (intro traced_choice traced_intros) (simp add: state_updates)
  then show ?case by simp
next
  case (Cons it its)
  have "traced (case c of Continue \<Rightarrow> iteration_loop E cb rp an b its | Break \<Rightarrow> give ())" for c
    using Cons.IH by (cases c) (simp_all add: traced_give)
  then show ?case by (simp add: traced_andthen traced_iteration_body)
qed

text \<open>
  Inside \<^verbatim>\<open>try\<close>, a call that raises ends the body at once: the body ends in a raise
  exactly when one of its calls raised, with the text of that call's exception and with
  the result dict as it stood at that call.
\<close>

lemma traced_pipeline_body: "traced (pipeline_body E cb url team leader)"
  unfolding pipeline_body_def
  by (intro traced_intros traced_deterministic_pass traced_iteration_loop) simp_all

subsection \<open>The handler and the summary\<close>

lemma silent_andthen:
  assumes "silent m" and "\<And>x. silent (f x)"
  shows "silent (andthen m f)"
  unfolding silent_def
proof
  fix s
  define n where "n = f ()"
  from assms(2) have "silent n" unfolding n_def .
  note assms = assms(1) this
  have eta: "andthen m f = andthen m (\<lambda>_. n)"
    by (rule ext) (simp add: andthen_def n_def split: prod.split sum.split)
  show "fst (andthen m f s) = Inr () \<and> result (snd (andthen m f s)) = result s \<and>
        first_raise (snd (andthen m f s)) = first_raise s"
    unfolding eta
  proof -
  obtain r s' where ms: "m s = (r, s')" by (cases "m s")
  from assms(1) have "fst (m s) = Inr () \<and> result (snd (m s)) = result s \<and>
      first_raise (snd (m s)) = first_raise s" by (simp add: silent_def)
  with ms have r: "r = Inr ()" and res: "result s' = result s" and fr: "first_raise s' = first_raise s"
    by simp_all
  from ms r have a: "andthen m (\<lambda>_. n) s = n s'" by (simp add: andthen_def)
  from assms(2) have "fst (n s') = Inr () \<and> result (snd (n s')) = result s' \<and>
      first_raise (snd (n s')) = first_raise s'" by (simp add: silent_def)
  with a res fr show "fst (andthen m (\<lambda>_. n) s) = Inr () \<and>
      result (snd (andthen m (\<lambda>_. n) s)) = result s \<and>
      first_raise (snd (andthen m (\<lambda>_. n) s)) = first_raise s" by simp
  qed
qed

lemma silent_give: "silent (give ())"
  by (simp add: silent_def give_def)

lemma silent_steps_Nil: "silent (steps [])"
  by (simp add: silent_def give_def)

lemma silent_steps_Cons: "silent m \<Longrightarrow> silent (steps ms) \<Longrightarrow> silent (steps (m # ms))"
  by (simp add: silent_andthen)

lemma silent_call: "(\<And>w. fst (f w) = Inr ()) \<Longrightarrow> silent (call f)"
proof -
  assume q: "\<And>w. fst (f w) = Inr ()"
  have "fst (call f s) = Inr () \<and> result (snd (call f s)) = result s \<and>
        first_raise (snd (call f s)) = first_raise s" for s :: "'a pstate"
  proof -
    obtain r w where fw: "f (world s) = (r, w)" by (cases "f (world s)")
    with q[of "world s"] have "r = Inr ()" by simp
    with fw show ?thesis by (simp add: call_def)
  qed
  then show ?thesis by (simp add: silent_def)
qed

lemma silent_say: "(\<And>w. fst (console E w) = Inr ()) \<Longrightarrow> silent (say E)"
  by (simp add: say_def silent_call)

lemma silent_says: "(\<And>w. fst (console E w) = Inr ()) \<Longrightarrow> silent (says E n)"
proof (induction n)
  case 0
  show ?case by (simp add: silent_def give_def)
next
  case (Suc n)
  then show ?case by (simp add: silent_andthen silent_say)
qed

lemma silent_update_status:
  assumes "\<And>w. fst (console E w) = Inr ()"
      and "\<And>f w. status_callback cb = Some f \<Longrightarrow> fst (f msg w) = Inr ()"
  shows "silent (update_status E cb msg)"
proof (cases "status_callback cb")
  case None
  with assms(1) show ?thesis by (auto simp: update_status_def intro!: silent_andthen silent_say silent_give)
next
  case (Some f)
  with assms(2) have "silent (call (f msg))" by (simp add: silent_call)
  with Some assms(1) show ?thesis by (simp add: update_status_def silent_andthen silent_say)
qed

lemma silent_emit:
  assumes "\<And>f w. event_callback cb = Some f \<Longrightarrow> fst (f t w) = Inr ()"
  shows "silent (emit cb t)"
proof -
  have a: "silent (assign (\<lambda>s. s\<lparr>events := events s @ [t]\<rparr>))"
    by (simp add: silent_def assign_def)
  show ?thesis
  proof (cases "event_callback cb")
    case None
    with a show ?thesis by (auto simp: emit_def intro!: silent_andthen silent_give)
  next
    case (Some f)
    with assms have "silent (call (f t))" by (simp add: silent_call)
    with Some a show ?thesis by (auto simp: emit_def intro!: silent_andthen)
  qed
qed

lemma silentD:
  "silent m \<Longrightarrow> \<exists>s'. m s = (Inr (), s') \<and> result s' = result s \<and> first_raise s' = first_raise s"
  by (cases "m s") (auto simp: silent_def dest: spec[of _ s])

lemma handler_returns:
  assumes console: "\<And>w. fst (console E w) = Inr ()"
      and status: "\<And>f w. status_callback cb = Some f \<Longrightarrow> fst (f (''Error: '' @ e) w) = Inr ()"
      and event: "\<And>f w. event_callback cb = Some f \<Longrightarrow> fst (f ''error'' w) = Inr ()"
  shows "\<exists>s'. handler E cb e s = (Inr (), s') \<and>
              result s' = (result s)\<lparr>final_status := ''ERROR'', error := Some e\<rparr> \<and>
              first_raise s' = first_raise s"
proof -
  let ?s1 = "s\<lparr>result := (result s)\<lparr>final_status := ''ERROR'', error := Some e\<rparr>\<rparr>"
  let ?rest = "steps [say E, update_status E cb (''Error: '' @ e), say E, emit cb ''error'']"
  have "silent ?rest"
    by (intro silent_steps_Cons silent_steps_Nil silent_say silent_update_status silent_emit
          console status event)
  from silentD[OF this, of ?s1] obtain s' where
    "?rest ?s1 = (Inr (), s')" "result s' = result ?s1" "first_raise s' = first_raise ?s1" by blast
  moreover have "handler E cb e s = ?rest ?s1"
    by (simp add: handler_def andthen_def assign_def)
  ultimately show ?thesis by simp
qed

lemma summary_returns:
  assumes console: "\<And>w. fst (console E w) = Inr ()"
      and event: "\<And>f w. event_callback cb = Some f \<Longrightarrow> fst (f ''done'' w) = Inr ()"
  shows "\<exists>s'. summary E cb t s = (Inr (result s'), s') \<and>
              result s' = (result s)\<lparr>time_taken := time_time E (world s) - t\<rparr> \<and>
              first_raise s' = first_raise s"
proof -
  let ?s1 = "s\<lparr>result := (result s)\<lparr>time_taken := time_time E (world s) - t\<rparr>\<rparr>"
  let ?rest = "steps [say E, says E 6, emit cb ''done'']"
  have "silent ?rest"
    by (intro silent_steps_Cons silent_steps_Nil silent_say silent_says silent_emit console event)
  from silentD[OF this, of ?s1] obtain s' where
    r: "?rest ?s1 = (Inr (), s')" "result s' = result ?s1" "first_raise s' = first_raise ?s1" by blast
  have "summary E cb t s = andthen ?rest (\<lambda>_ s. (Inr (result s), s)) ?s1"
    by (simp add: summary_def andthen_def assign_def split: prod.split sum.split)
  with r have "summary E cb t s = (Inr (result s'), s')" by (simp add: andthen_def)
  with r show ?thesis by simp
qed

text \<open>
  Claim C3, as the code has it. Let a call made during the run raise, \<open>e\<close> being the text
  of the first exception raised and \<open>r0\<close> the result dict at that moment. If writing to
  the terminal does not raise, the status callback does not raise on the message
  \<^verbatim>\<open>Error: ...\<close> of the handler, and the event callback raises neither on the \<^verbatim>\<open>error\<close>
  event nor on the \<^verbatim>\<open>done\<close> event, then no exception leaves \<^verbatim>\<open>run_pipeline\<close>: it returns
  its result, whose final status is \<^verbatim>\<open>ERROR\<close>, whose error field holds \<open>e\<close>, and whose
  iterations, fixes and counts are those of \<open>r0\<close>.
\<close>

theorem error_report:
  assumes console: "\<And>w. fst (console E w) = Inr ()"
      and status: "\<And>f msg w. status_callback cb = Some f \<Longrightarrow> fst (f (''Error: '' @ msg) w) = Inr ()"
      and event: "\<And>f w. event_callback cb = Some f \<Longrightarrow>
                    fst (f ''error'' w) = Inr () \<and> fst (f ''done'' w) = Inr ()"
      and raised: "first_raise (snd (run_pipeline E cb w url team leader)) = Some (e, r0)"
  shows "\<exists>r. fst (run_pipeline E cb w url team leader) = Inr r \<and>
             final_status r = ''ERROR'' \<and>
             error r = Some e \<and>
             iterations r = iterations r0 \<and>
             total_failures_detected r = total_failures_detected r0 \<and>
             total_fixes_applied r = total_fixes_applied r0 \<and>
             all_fixes r = all_fixes r0"
proof -
  let ?s0 = "initial_state w url team leader"
  let ?t = "time_time E w"
  obtain b s where body: "pipeline_body E cb url team leader ?s0 = (b, s)"
    by (cases "pipeline_body E cb url team leader ?s0")
  have "first_raise ?s0 = None" by (simp add: initial_state_def)
  with traced_pipeline_body[of E cb url team leader]
  have "case pipeline_body E cb url team leader ?s0 of
          (Inl e', s') \<Rightarrow> first_raise s' = Some (e', result s')
        | (Inr a, s') \<Rightarrow> first_raise s' = None"
    by (simp add: traced_def)
  then have tr: "case b of Inl e' \<Rightarrow> first_raise s = Some (e', result s) | Inr a \<Rightarrow> first_raise s = None"
    using body by simp
  from event have ev_error: "\<And>f w. event_callback cb = Some f \<Longrightarrow> fst (f ''error'' w) = Inr ()"
    and ev_done: "\<And>f w. event_callback cb = Some f \<Longrightarrow> fst (f ''done'' w) = Inr ()" by simp_all
  show ?thesis
  proof (cases b)
    case (Inr a)
    with tr have n: "first_raise s = None" by simp
    have "\<exists>s'. summary E cb ?t s = (Inr (result s'), s') \<and>
            result s' = (result s)\<lparr>time_taken := time_time E (world s) - ?t\<rparr> \<and>
            first_raise s' = first_raise s"
      by (rule summary_returns, rule console, erule ev_done)
    then obtain s' where
      "summary E cb ?t s = (Inr (result s'), s')" "first_raise s' = first_raise s" by blast
    with Inr body n have "first_raise (snd (run_pipeline E cb w url team leader)) = None"
      by (simp add: run_pipeline_def)
    with raised show ?thesis by simp
  next
    case (Inl e')
    with tr have fr: "first_raise s = Some (e', result s)" by simp
    have "\<exists>s'. handler E cb e' s = (Inr (), s') \<and>
            result s' = (result s)\<lparr>final_status := ''ERROR'', error := Some e'\<rparr> \<and>
            first_raise s' = first_raise s"
      by (rule handler_returns, rule console, erule status, erule ev_error)
    then obtain s1 where
      h: "handler E cb e' s = (Inr (), s1)"
         "result s1 = (result s)\<lparr>final_status := ''ERROR'', error := Some e'\<rparr>"
         "first_raise s1 = first_raise s" by blast
    have "\<exists>s'. summary E cb ?t s1 = (Inr (result s'), s') \<and>
            result s' = (result s1)\<lparr>time_taken := time_time E (world s1) - ?t\<rparr> \<and>
            first_raise s' = first_raise s1"
      by (rule summary_returns, rule console, erule ev_done)
    then obtain s2 where
      f: "summary E cb ?t s1 = (Inr (result s2), s2)"
         "result s2 = (result s1)\<lparr>time_taken := time_time E (world s1) - ?t\<rparr>"
         "first_raise s2 = first_raise s1" by blast
    from Inl body h(1) f(1) have run: "run_pipeline E cb w url team leader = (Inr (result s2), s2)"
      by (simp add: run_pipeline_def andthen_def)
    with raised f(3) h(3) fr have "e = e'" and "r0 = result s" by simp_all
    with run f(2) h(2) show ?thesis by simp
  qed
qed

subsection \<open>Concrete runs\<close>

lemma example_fields:
  "workspace_dir example_collaborators = ''workspace''"
  "clone_repo example_collaborators = (\<lambda>url dir w. (Inr ''repo'', w))"
  "analyze_repo example_collaborators =
     (\<lambda>p w. (Inr \<lparr>tree = ''a.py'', test_files = [''tests/test_a.py''],
                       language = ''python'', test_command = ''pytest -v''\<rparr>, w))"
  "make_branch_name example_collaborators = (\<lambda>team leader. team @ ''_'' @ leader @ ''_AI_Fix'')"
  "create_branch example_collaborators = (\<lambda>p b w. (Inr (), w))"
  "detect_and_fix_deterministic example_collaborators =
     (\<lambda>p w. (Inr \<lparr>fixes' = [example_fix 1 ''import os'' []],
                       commit_title = ''[AI-AGENT] Fix syntax, import, linting, and indentation errors (deterministic)''\<rparr>, w))"
  "commit_and_push example_collaborators =
     (\<lambda>p msg b w. (Inr \<lparr>commit_hash = ''abc1234'', branch = b, push_success = True\<rparr>, w))"
  "run_tests example_collaborators =
     (\<lambda>p cmd skip w.
        if ext w = 0
        then (Inr \<lparr>tr_passed = 0, tr_failed = 1, tr_errors = [example_failure], raw_output = ''FAILED''\<rparr>,
              w\<lparr>ext := 1\<rparr>)
        else (Inl ''Command timed out'', w))"
  "discover_source_files_from_errors example_collaborators = (\<lambda>p errs w. (Inr [''a.py''], w))"
  "read_file_contents example_collaborators = (\<lambda>p fps w. (Inr [(''a.py'', ''x = 1'')], w))"
  "ask_for_fixes example_collaborators =
     (\<lambda>t fc errs w. (Inr \<lparr>fixes' = [example_fix 1 ''x = 1'' ''x = 2''], commit_title = ''Fix x''\<rparr>, w))"
  "strftime example_collaborators = (\<lambda>w. ''2026-01-01 00:00:00'')"
  "time_time example_collaborators = (\<lambda>w. int (ext w))"
  by (simp_all add: example_collaborators_def)

lemma example_say: "say example_collaborators s = (Inr (), s)"
  by (simp add: say_def call_def example_collaborators_def)

lemma example_says: "says example_collaborators n s = (Inr (), s)"
  by (induction n) (simp_all add: give_def andthen_def example_say)

lemma example_update_status: "update_status example_collaborators example_callbacks msg s = (Inr (), s)"
  by (simp add: update_status_def andthen_def example_say example_callbacks_def call_def)

lemma example_emit: "emit example_callbacks t s = (Inr (), s\<lparr>events := events s @ [t]\<rparr>)"
  by (simp add: emit_def andthen_def assign_def example_callbacks_def call_def)

lemmas pipeline_simps = pipeline_body_def deterministic_pass_def iteration_body_def apply_and_count_def
  run_tests_step_def clock_def handler_def summary_def run_pipeline_def
  initial_state_def append_iteration_def set_final_status_def add_failures_def count_status_def
  andthen_def give_def assign_def call_def note_raise_def
  example_say example_says example_update_status example_emit
  example_fields example_world_def example_failure_def
  apply_fix_def edit_lines_def pop_def writelines_def mark_applied_def mark_failed_def Let_def

lemma iteration_range_eq: "iteration_range = [1, 2, 3, 4, 5]"
  unfolding iteration_range_def MAX_ITERATIONS_def by code_simp

lemma example_run:
  "(case run_pipeline example_collaborators example_callbacks example_world ''u'' ''T'' ''L'' of
      (r, s) \<Rightarrow> map_option fst (first_raise s) = Some ''Command timed out'' \<and>
                map_option (map iter_status \<circ> iterations \<circ> snd) (first_raise s) =
                  Some [''DETERMINISTIC_FIX'', ''FIXED''] \<and>
                map_option (total_fixes_applied \<circ> snd) (first_raise s) = Some 2 \<and>
                test_runs s = 2)"
  by (simp add: pipeline_simps example_simps iteration_range_eq)

theorem error_report_witness:
  "map_option fst (first_raise (snd (run_pipeline example_collaborators example_callbacks example_world ''u'' ''T'' ''L''))) =
     Some ''Command timed out'' \<and>
   map_sum id final_status (fst (run_pipeline example_collaborators example_callbacks example_world ''u'' ''T'' ''L'')) =
     Inr ''ERROR'' \<and>
   map_sum id error (fst (run_pipeline example_collaborators example_callbacks example_world ''u'' ''T'' ''L'')) =
     Inr (Some ''Command timed out'') \<and>
   map_sum id (map iter_status \<circ> iterations)
     (fst (run_pipeline example_collaborators example_callbacks example_world ''u'' ''T'' ''L'')) =
     Inr [''DETERMINISTIC_FIX'', ''FIXED''] \<and>
   map_sum id total_fixes_applied
     (fst (run_pipeline example_collaborators example_callbacks example_world ''u'' ''T'' ''L'')) = Inr 2"
proof -
  let ?run = "run_pipeline example_collaborators example_callbacks example_world ''u'' ''T'' ''L''"
  obtain r s where run: "?run = (r, s)" by (cases ?run)
  with example_run have e: "map_option fst (first_raise s) = Some ''Command timed out''"
    and i: "map_option (map iter_status \<circ> iterations \<circ> snd) (first_raise s) = Some [''DETERMINISTIC_FIX'', ''FIXED'']"
    and t: "map_option (total_fixes_applied \<circ> snd) (first_raise s) = Some 2" by simp_all
  from e obtain r0 where fr: "first_raise s = Some (''Command timed out'', r0)" by auto
  with run have h: "first_raise (snd ?run) = Some (''Command timed out'', r0)" by simp
  have console: "fst (console example_collaborators w) = Inr ()" for w
    by (simp add: example_collaborators_def)
  have status: "status_callback example_callbacks = Some f \<Longrightarrow> fst (f (''Error: '' @ msg) w) = Inr ()" for f msg w
    by (auto simp: example_callbacks_def)
  have event: "event_callback example_callbacks = Some f \<Longrightarrow>
      fst (f ''error'' w) = Inr () \<and> fst (f ''done'' w) = Inr ()" for f w
    by (auto simp: example_callbacks_def)
  have "\<exists>r. fst ?run = Inr r \<and> final_status r = ''ERROR'' \<and> error r = Some ''Command timed out'' \<and>
          iterations r = iterations r0 \<and> total_failures_detected r = total_failures_detected r0 \<and>
          total_fixes_applied r = total_fixes_applied r0 \<and> all_fixes r = all_fixes r0"
    by (rule error_report, rule console, erule status, erule event, rule h)
  with run fr i t show ?thesis by auto
qed

lemma says_numeral: "says E (numeral k) = andthen (say E) (\<lambda>_. says E (pred_numeral k))"
  by (simp add: numeral_eq_Suc)

lemma says_1: "says E 1 = andthen (say E) (\<lambda>_. give ())"
  by (simp add: One_nat_def[symmetric] del: One_nat_def) (simp add: One_nat_def)

lemmas failing_simps = failing_clone_def failing_console_def raising_status_def raising_on_def
  no_callbacks_def example_collaborators_def example_world_def
  pipeline_body_def handler_def summary_def run_pipeline_def initial_state_def
  update_status_def emit_def say_def says_numeral says_1 steps.simps
  andthen_def give_def assign_def call_def note_raise_def startswith_def

text \<open>
  Claim C3 as stated fails. In the first three runs the clone raises, the handler takes
  over, and a call of the handler or of the summary raises: the status callback on the
  handler's message, the event callback on the \<^verbatim>\<open>error\<close> event, the event callback on the
  \<^verbatim>\<open>done\<close> event. In the fourth the terminal cannot be written: the first banner raises
  inside \<^verbatim>\<open>try\<close> and the banner of the handler raises again. Each time the second exception
  leaves \<^verbatim>\<open>run_pipeline\<close>, and no result is returned.
\<close>

theorem error_report_counterexample:
  "(fst (run_pipeline failing_clone raising_status example_world ''u'' ''T'' ''L''),
    map_option fst (first_raise (snd (run_pipeline failing_clone raising_status example_world ''u'' ''T'' ''L'')))) =
     (Inl ''status failed'', Some ''clone failed'') \<and>
   (fst (run_pipeline failing_clone (raising_on ''error'') example_world ''u'' ''T'' ''L''),
    map_option fst (first_raise (snd (run_pipeline failing_clone (raising_on ''error'') example_world ''u'' ''T'' ''L'')))) =
     (Inl ''event failed'', Some ''clone failed'') \<and>
   (fst (run_pipeline failing_clone (raising_on ''done'') example_world ''u'' ''T'' ''L''),
    map_option fst (first_raise (snd (run_pipeline failing_clone (raising_on ''done'') example_world ''u'' ''T'' ''L'')))) =
     (Inl ''event failed'', Some ''clone failed'') \<and>
   (fst (run_pipeline failing_console no_callbacks example_world ''u'' ''T'' ''L''),
    map_option fst (first_raise (snd (run_pipeline failing_console no_callbacks example_world ''u'' ''T'' ''L'')))) =
     (Inl ''write failed'', Some ''write failed'')"
  by (simp add: failing_simps)

section \<open>Properties of the single-flight guard\<close>

lemma guard_rejects_while_running:
  "run_status s = ''running'' \<Longrightarrow> i < length (handlers s) \<Longrightarrow> handlers s ! i = Arrived \<Longrightarrow>
   act s (Guard i) = Some (s\<lparr>handlers := (handlers s)[i := Rejected]\<rparr>)"
  by simp

text \<open>
  Claim C9. The guard reads the status under the lock, but the status becomes
  \<^verbatim>\<open>running\<close> only later, in the worker thread. In the schedule below both handlers
  pass the guard before either worker has begun: two pipeline runs are launched and both
  are in flight at once.
\<close>

theorem single_flight_race:
  "schedule idle_server [Guard 0, Guard 1, Launch 0, Launch 1, Begin 0, Begin 1] =
     Some \<lparr>run_status = ''running'', handlers = [Started, Started], workers = [Working, Working]\<rparr> \<and>
   running_count \<lparr>run_status = ''running'', handlers = [Started, Started], workers = [Working, Working]\<rparr> = 2 \<and>
   launched_count \<lparr>run_status = ''running'', handlers = [Started, Started], workers = [Working, Working]\<rparr> = 2"
  by (simp add: idle_server_def running_count_def launched_count_def)

section \<open>Properties of the parse-failure heuristics\<close>


lemma example_lines: "split_nl example_source = [''for x in (1,'', ''# comment'', '')'', ''    pass'']"
  by (simp add: example_source_def)








section \<open>Properties of the result parser\<close>

lemmas parser_simps = match_here_def findall_def re_search_def
  failed_pattern_def error_block_pattern_def collection_pattern_def file_line_pattern_def line_pattern_def
  py_isspace_def py_isword_def py_isdigit_def startswith_def endswith_def rstrip_def lstrip_def strip_def
  group_def slashes_def

lemma scenario_c_matches:
  "findall failed_pattern scenario_c = [[''tests/test_math.py'', ''test_add'']]"
  "findall error_block_pattern scenario_c = []"
  "findall collection_pattern scenario_c = []"
  by (simp_all add: scenario_c_def parser_simps)

lemma two_summaries_matches:
  "findall failed_pattern two_summaries = [[''tests/test_math.py'', ''test_add''], [''tests/test_math.py'', ''test_sub'']]"
  "findall error_block_pattern two_summaries = []"
  "findall collection_pattern two_summaries = []"
  by (simp_all add: two_summaries_def parser_simps)

lemma summary_and_banner_matches:
  "findall failed_pattern summary_and_banner = [[''tests/test_math.py'', ''test_add'']]"
  "findall error_block_pattern summary_and_banner = []"
  "findall collection_pattern summary_and_banner = [[''tests/test_x.py'', ''E  SyntaxError'']]"
  by (simp_all add: summary_and_banner_def parser_simps)


text \<open>
  Claim C7, as stated, fails. Both outputs below hold the summary line
  \<^verbatim>\<open>FAILED tests/test_math.py::test_add\<close> and no delimited block, and the parser returns two
  records for each: one for every summary line, and one more for a collection-error banner.
\<close>

theorem summary_only_counterexample:
  "contains two_summaries ''FAILED tests/test_math.py::test_add'' \<and>
   findall error_block_pattern two_summaries = [] \<and>
   parse_pytest_output two_summaries ''repo'' =
     Inr [summary_failure ''tests/test_math.py'' ''test_add'', summary_failure ''tests/test_math.py'' ''test_sub''] \<and>
   contains summary_and_banner ''FAILED tests/test_math.py::test_add'' \<and>
   findall error_block_pattern summary_and_banner = [] \<and>
   parse_pytest_output summary_and_banner ''repo'' =
     Inr [summary_failure ''tests/test_math.py'' ''test_add'',
          \<lparr>test_name = ''collection_error:tests/test_x.py'', err_file = ''tests/test_x.py'', err_line = 0,
           error_message = ''E  SyntaxError''\<rparr>]"
proof -
  have a: "contains two_summaries ''FAILED tests/test_math.py::test_add''"
    by (simp add: two_summaries_def startswith_def)
  have b: "contains summary_and_banner ''FAILED tests/test_math.py::test_add''"
    by (simp add: summary_and_banner_def startswith_def)
  have c: "re_search line_pattern ''E  SyntaxError'' = None"
    by (simp add: parser_simps)
  have d: "strip ''E  SyntaxError'' = ''E  SyntaxError''"
    by (simp add: parser_simps)
  show ?thesis
    using a b c d
    by (simp add: parse_pytest_output_def two_summaries_matches summary_and_banner_matches
        block_record_def collection_record_def summary_record_def summary_failure_def group_def slashes_def
        Let_def)
qed

text \<open>
  Claim C7, amended. When the summary pattern finds \<^verbatim>\<open>tests/test_math.py::test_add\<close> and
  nothing else, and the output has neither a delimited block nor a collection-error banner,
  the parser returns exactly the one record of scenario C.
\<close>

theorem summary_only:
  assumes "findall failed_pattern output = [[''tests/test_math.py'', ''test_add'']]"
      and "findall error_block_pattern output = []"
      and "findall collection_pattern output = []"
  shows "parse_pytest_output output repo_path =
           Inr [\<lparr>test_name = ''test_add'', err_file = ''tests/test_math.py'', err_line = 0,
                 error_message = ''Test test_add failed''\<rparr>]"
  using assms by (simp add: parse_pytest_output_def summary_record_def group_def slashes_def Let_def)

theorem summary_only_witness:
  "findall failed_pattern scenario_c = [[''tests/test_math.py'', ''test_add'']] \<and>
   findall error_block_pattern scenario_c = [] \<and>
   findall collection_pattern scenario_c = [] \<and>
   parse_pytest_output scenario_c ''repo'' =
     Inr [\<lparr>test_name = ''test_add'', err_file = ''tests/test_math.py'', err_line = 0,
           error_message = ''Test test_add failed''\<rparr>]"
  using summary_only[OF scenario_c_matches, of "''repo''"] scenario_c_matches by simp

section \<open>The result parser never fails on bounded line numbers\<close>

text \<open>
  What a successful repetition, literal or single character consumed, as elimination rules:
  the text splits into the part consumed and the rest the continuation got.
\<close>

lemma rep_greedy_sound:
  "rep_greedy c n p s k = Some r \<Longrightarrow>
   \<exists>j. n \<le> j \<and> j \<le> length s \<and> list_all (in_cls c) (take j s) \<and> k (p + j, drop j s) = Some r"
proof (induction s arbitrary: n p)
  case Nil
  then show ?case by (auto split: if_splits)
next
  case (Cons x xs)
  show ?case
  proof (cases "in_cls c x \<and> rep_greedy c (n - 1) (Suc p) xs k = Some r")
    case True
    with Cons.IH[of "n - 1" "Suc p"] obtain j where
      j: "n - 1 \<le> j" "j \<le> length xs" "list_all (in_cls c) (take j xs)" "k (Suc p + j, drop j xs) = Some r"
      by blast
    with True have "n \<le> Suc j \<and> Suc j \<le> length (x # xs) \<and> list_all (in_cls c) (take (Suc j) (x # xs)) \<and>
      k (p + Suc j, drop (Suc j) (x # xs)) = Some r" by simp
    then show ?thesis by blast
  next
    case False
    with Cons.prems have "n = 0 \<and> k (p, x # xs) = Some r"
      by (auto split: if_splits option.splits)
    then have "n \<le> 0 \<and> 0 \<le> length (x # xs) \<and> list_all (in_cls c) (take 0 (x # xs)) \<and>
      k (p + 0, drop 0 (x # xs)) = Some r" by simp
    then show ?thesis by blast
  qed
qed

lemma rep_lazy_sound:
  "rep_lazy c n p s k = Some r \<Longrightarrow>
   \<exists>j. n \<le> j \<and> j \<le> length s \<and> list_all (in_cls c) (take j s) \<and> k (p + j, drop j s) = Some r"
proof (induction s arbitrary: n p)
  case Nil
  then show ?case by (auto split: if_splits)
next
  case (Cons x xs)
  show ?case
  proof (cases "n = 0 \<and> k (p, x # xs) = Some r")
    case True
    then have "n \<le> 0 \<and> 0 \<le> length (x # xs) \<and> list_all (in_cls c) (take 0 (x # xs)) \<and>
      k (p + 0, drop 0 (x # xs)) = Some r" by simp
    then show ?thesis by blast
  next
    case False
    with Cons.prems have x: "in_cls c x" and r: "rep_lazy c (n - 1) (Suc p) xs k = Some r"
      by (auto split: if_splits option.splits)
    from Cons.IH[OF r] obtain j where
      j: "n - 1 \<le> j" "j \<le> length xs" "list_all (in_cls c) (take j xs)" "k (Suc p + j, drop j xs) = Some r"
      by blast
    with x have "n \<le> Suc j \<and> Suc j \<le> length (x # xs) \<and> list_all (in_cls c) (take (Suc j) (x # xs)) \<and>
      k (p + Suc j, drop (Suc j) (x # xs)) = Some r" by simp
    then show ?thesis by blast
  qed
qed

lemma match_at_RepE:
  assumes "match_at (Rep c g n) (p, s) gs k = Some r"
  obtains t rest where "s = t @ rest" "n \<le> length t" "list_all (in_cls c) t"
    "k (p + length t, rest) gs = Some r"
proof -
  from assms have "rep_greedy c n p s (\<lambda>st. k st gs) = Some r \<or> rep_lazy c n p s (\<lambda>st. k st gs) = Some r"
    by (cases g) auto
  with rep_greedy_sound[of c n p s "\<lambda>st. k st gs" r] rep_lazy_sound[of c n p s "\<lambda>st. k st gs" r]
  obtain j where j: "n \<le> j" "j \<le> length s" "list_all (in_cls c) (take j s)" "k (p + j, drop j s) gs = Some r"
    by blast
  from j(2) have "length (take j s) = j" by simp
  with j that[of "take j s" "drop j s"] show thesis by simp
qed

lemma match_at_StrE:
  assumes "match_at (Str t) (p, s) gs k = Some r"
  obtains rest where "s = t @ rest" "k (p + length t, rest) gs = Some r"
proof -
  from assms have a: "take (length t) s = t" and b: "k (p + length t, drop (length t) s) gs = Some r"
    by (auto split: if_splits)
  from a have "s = t @ drop (length t) s" by (metis append_take_drop_id)
  with b that show thesis by blast
qed

lemma match_at_AtomE:
  assumes "match_at (Atom c) (p, s) gs k = Some r"
  obtains x rest where "s = x # rest" "in_cls c x" "k (Suc p, rest) gs = Some r"
  using assms by (cases s) (auto split: if_splits)

lemmas match_at_leaf = match_at.simps(1) match_at.simps(2) match_at.simps(3)

lemma in_cls_Digit: "list_all (in_cls Digit) t = list_all py_isdigit t"
  by (simp add: list_all_iff)

lemma file_line_groups:
  assumes "match_here file_line_pattern (p, s) = Some (st, gs)"
  shows "\<exists>g1 g2. gs = [g1, g2] \<and> g2 \<noteq> [] \<and> list_all py_isdigit g2 \<and> sublist g2 s"
  using assms unfolding match_here_def file_line_pattern_def
  apply (simp del: match_at_leaf)
  apply (elim match_at_RepE match_at_StrE)
  apply (simp del: match_at_leaf)
  apply (elim match_at_RepE match_at_StrE)
  apply (auto simp: in_cls_Digit)
  apply (metis append.assoc sublist_appendI append_Cons append_Nil)
  done


lemma line_groups:
  assumes "match_here line_pattern (p, s) = Some (st, gs)"
  shows "\<exists>g. gs = [g] \<and> g \<noteq> [] \<and> list_all py_isdigit g \<and> sublist g s"
  using assms unfolding match_here_def line_pattern_def
  apply (simp del: match_at_leaf)
  apply (elim match_at_RepE match_at_StrE)
  apply (simp del: match_at_leaf)
  apply (elim match_at_RepE match_at_StrE)
  apply (auto simp: in_cls_Digit)
  apply (metis append.assoc sublist_appendI append_Cons append_Nil)
  done

lemma match_at_AheadE:
  assumes "match_at (Ahead a) st gs k = Some r"
  obtains st' gs' where "match_at a st gs (\<lambda>st' gs'. Some (st', gs')) = Some (st', gs')" "k st gs' = Some r"
  using assms by (auto split: option.splits)

lemma block_ahead_groups:
  assumes "match_at (Alt (Rep (Lit CHR ''_'') True 5) Eos) (p, s) gs (\<lambda>st' gs'. Some (st', gs')) = Some (st', gs')"
  shows "gs' = gs"
proof (cases "match_at (Rep (Lit CHR ''_'') True 5) (p, s) gs (\<lambda>st' gs'. Some (st', gs'))")
  case None
  with assms show ?thesis by (simp split: if_splits)
next
  case (Some r)
  with assms have "match_at (Rep (Lit CHR ''_'') True 5) (p, s) gs (\<lambda>st' gs'. Some (st', gs')) = Some (st', gs')"
    by simp
  then show ?thesis by (elim match_at_RepE) simp
qed

lemma sublist_6: "sublist x (a @ b @ c @ d @ e @ x @ f)"
  using sublist_appendI[of x "a @ b @ c @ d @ e" f] by simp

lemma error_block_groups:
  assumes "match_here error_block_pattern (p, s) = Some (st, gs)"
  shows "\<exists>g1 g2. gs = [g1, g2] \<and> sublist g2 s"
  using assms unfolding match_here_def error_block_pattern_def
  apply (simp del: match_at_leaf match_at.simps(7))
  apply (elim match_at_RepE)
  apply (simp del: match_at_leaf match_at.simps(7))
  apply (elim match_at_RepE)
  apply (simp del: match_at_leaf match_at.simps(7))
  apply (elim match_at_RepE)
  apply (erule match_at_AheadE)
  apply (drule block_ahead_groups)
  apply (clarsimp simp: sublist_6)
  done


lemma collection_ahead_groups:
  assumes "match_at (Alt (Seq (Atom (Lit NL)) (Atom NonSpace)) Eos) (p, s) gs (\<lambda>st' gs'. Some (st', gs')) = Some (st', gs')"
  shows "gs' = gs"
proof (cases "match_at (Seq (Atom (Lit NL)) (Atom NonSpace)) (p, s) gs (\<lambda>st' gs'. Some (st', gs'))")
  case None
  with assms show ?thesis by (simp split: if_splits)
next
  case (Some r)
  with assms have "match_at (Atom (Lit NL)) (p, s) gs
      (\<lambda>st' gs'. match_at (Atom NonSpace) st' gs' (\<lambda>st' gs'. Some (st', gs'))) = Some (st', gs')"
    by simp
  then show ?thesis by (elim match_at_AtomE) simp
qed

lemma sublist_skip: "sublist x ys \<Longrightarrow> sublist x (a @ ys)"
  by (metis sublist_order.order_trans sublist_append_leftI sublist_order.order_refl sublist_appendI append_Nil2)

lemma sublist_skip_Cons: "sublist x ys \<Longrightarrow> sublist x (c # ys)"
  using sublist_skip[of x ys "[c]"] by simp

lemma collection_groups:
  assumes "match_here collection_pattern (p, s) = Some (st, gs)"
  shows "\<exists>g1 g2. gs = [g1, g2] \<and> sublist g2 s"
  using assms unfolding match_here_def collection_pattern_def
  apply (simp del: match_at_leaf match_at.simps(7))
  apply (elim match_at_RepE match_at_StrE match_at_AtomE)
  apply (simp del: match_at_leaf match_at.simps(7))
  apply (elim match_at_RepE match_at_StrE match_at_AtomE)
  apply (simp del: match_at_leaf match_at.simps(7))
  apply (elim match_at_RepE match_at_StrE match_at_AtomE)
  apply (erule match_at_AheadE)
  apply (drule collection_ahead_groups)
  apply clarsimp
  apply (rule sublist_append_rightI | rule sublist_skip | rule sublist_skip_Cons)+
  done


lemma search_from_sound:
  "search_from r p s = Some gs \<Longrightarrow> \<exists>p' s' st. suffix s' s \<and> match_here r (p', s') = Some (st, gs)"
proof (induction s arbitrary: p)
  case Nil
  then obtain st where "match_here r (p, []) = Some (st, gs)" by (cases "match_here r (p, [])") auto
  then show ?case by blast
next
  case (Cons x xs)
  show ?case
  proof (cases "match_here r (p, x # xs)")
    case None
    with Cons.prems have "search_from r (Suc p) xs = Some gs" by simp
    from Cons.IH[OF this] obtain p' s' st where "suffix s' xs" "match_here r (p', s') = Some (st, gs)" by blast
    then show ?thesis by (meson suffix_Cons)
  next
    case (Some a)
    with Cons.prems obtain st where "match_here r (p, x # xs) = Some (st, gs)" by (cases a) auto
    then show ?thesis by (meson suffix_order.order_refl)
  qed
qed

lemma findall_from_sound:
  "gs \<in> set (findall_from r p k s) \<Longrightarrow>
   \<exists>p' s' st. suffix s' s \<and> match_here r (p', s') = Some (st, gs)"
proof (induction s arbitrary: p k)
  case Nil
  show ?case
  proof (cases "match_here r (p, [])")
    case None
    with Nil show ?thesis by (cases "k = 0") simp_all
  next
    case (Some a)
    obtain st gs0 where a: "a = (st, gs0)" by (cases a)
    from Nil Some a have "gs = gs0" by (cases "k = 0") simp_all
    with Some a have "match_here r (p, []) = Some (st, gs)" by simp
    then show ?thesis by (meson suffix_order.order_refl)
  qed
next
  case (Cons x xs)
  have step: "gs \<in> set (findall_from r p' k' xs) \<Longrightarrow> ?case" for p' k'
  proof -
    assume "gs \<in> set (findall_from r p' k' xs)"
    from Cons.IH[OF this] obtain q s' st where "suffix s' xs" "match_here r (q, s') = Some (st, gs)" by blast
    then show ?case by (meson suffix_Cons)
  qed
  show ?case
  proof (cases "k > 0")
    case True
    with Cons.prems step show ?thesis by simp
  next
    case False
    show ?thesis
    proof (cases "match_here r (p, x # xs)")
      case None
      with False Cons.prems step show ?thesis by simp
    next
      case (Some a)
      obtain e rest gs0 where a: "a = ((e, rest), gs0)" by (metis prod.exhaust)
      with False Some Cons.prems have "gs = gs0 \<or> gs \<in> set (findall_from r (Suc p) (e - p - 1) xs)" by simp
      then show ?thesis
      proof
        assume "gs = gs0"
        with Some a have "match_here r (p, x # xs) = Some ((e, rest), gs)" by simp
        then show ?thesis by (meson suffix_order.order_refl)
      next
        assume "gs \<in> set (findall_from r (Suc p) (e - p - 1) xs)"
        with step show ?thesis .
      qed
    qed
  qed
qed

lemma digit_run_lower: "max cur best \<le> digit_run cur best s"
proof (induction s arbitrary: cur best)
  case Nil show ?case by simp
next
  case (Cons c cs)
  show ?case using Cons[of "Suc cur" best] Cons[of 0 "max cur best"] by auto
qed

lemma digit_run_prefix: "list_all py_isdigit t \<Longrightarrow> cur + length t \<le> digit_run cur best (t @ ss)"
proof (induction t arbitrary: cur)
  case Nil
  show ?case using digit_run_lower[of cur best ss] by simp
next
  case (Cons c cs)
  then show ?case using Cons.IH[of "Suc cur"] by simp
qed

lemma digit_run_inside: "list_all py_isdigit t \<Longrightarrow> length t \<le> digit_run cur best (ps @ t @ ss)"
proof (induction ps arbitrary: cur best)
  case Nil
  then show ?case using digit_run_prefix[of t cur best ss] by simp
next
  case (Cons c cs)
  then show ?case by simp
qed

lemma sublist_digit_run: "sublist t s \<Longrightarrow> list_all py_isdigit t \<Longrightarrow> length t \<le> longest_digit_run s"
  unfolding sublist_def longest_digit_run_def using digit_run_inside by blast

lemma py_int_digits:
  "t \<noteq> [] \<Longrightarrow> list_all py_isdigit t \<Longrightarrow> length t \<le> int_max_str_digits \<Longrightarrow> \<exists>n. py_int t = Inr n"
  by (simp add: py_int_def)

lemma collect_total: "(\<And>x. x \<in> set xs \<Longrightarrow> \<exists>y. f x = Inr y) \<Longrightarrow> \<exists>ys. collect f xs = Inr ys"
proof (induction xs)
  case Nil show ?case by simp
next
  case (Cons x xs)
  from Cons.prems obtain y where "f x = Inr y" by auto
  moreover from Cons obtain ys where "collect f xs = Inr ys" by auto
  ultimately show ?case by simp
qed

lemma block_record_total:
  assumes bound: "longest_digit_run output \<le> int_max_str_digits"
      and gs: "gs \<in> set (findall error_block_pattern output)"
  shows "\<exists>f. block_record gs = Inr f"
proof -
  from gs obtain p s st where s: "suffix s output" and m: "match_here error_block_pattern (p, s) = Some (st, gs)"
    unfolding findall_def using findall_from_sound by blast
  from error_block_groups[OF m] obtain g1 g2 where g: "gs = [g1, g2]" "sublist g2 s" by blast
  from g(2) s have g2: "sublist g2 output" by (meson suffix_imp_sublist sublist_order.order_trans)
  show ?thesis
  proof (cases "re_search file_line_pattern g2")
    case None
    with g show ?thesis by (simp add: block_record_def group_def Let_def)
  next
    case (Some m)
    then obtain q s' st' where s': "suffix s' g2" and m': "match_here file_line_pattern (q, s') = Some (st', m)"
      unfolding re_search_def using search_from_sound by blast
    from file_line_groups[OF m'] obtain h1 h2 where h: "m = [h1, h2]" "h2 \<noteq> []" "list_all py_isdigit h2" "sublist h2 s'"
      by blast
    from h(4) s' g2 have "sublist h2 output" by (meson suffix_imp_sublist sublist_order.order_trans)
    with h(3) bound have "length h2 \<le> int_max_str_digits" using sublist_digit_run by fastforce
    with py_int_digits[OF h(2,3)] obtain n where "py_int h2 = Inr n" by blast
    with g h Some show ?thesis by (simp add: block_record_def group_def Let_def)
  qed
qed

lemma collection_record_total:
  assumes bound: "longest_digit_run output \<le> int_max_str_digits"
      and gs: "gs \<in> set (findall collection_pattern output)"
  shows "\<exists>f. collection_record gs = Inr f"
proof -
  from gs obtain p s st where s: "suffix s output" and m: "match_here collection_pattern (p, s) = Some (st, gs)"
    unfolding findall_def using findall_from_sound by blast
  from collection_groups[OF m] obtain g1 g2 where g: "gs = [g1, g2]" "sublist g2 s" by blast
  from g(2) s have g2: "sublist g2 output" by (meson suffix_imp_sublist sublist_order.order_trans)
  show ?thesis
  proof (cases "re_search line_pattern g2")
    case None
    with g show ?thesis by (simp add: collection_record_def group_def Let_def)
  next
    case (Some m)
    then obtain q s' st' where s': "suffix s' g2" and m': "match_here line_pattern (q, s') = Some (st', m)"
      unfolding re_search_def using search_from_sound by blast
    from line_groups[OF m'] obtain h where h: "m = [h]" "h \<noteq> []" "list_all py_isdigit h" "sublist h s'"
      by blast
    from h(4) s' g2 have "sublist h output" by (meson suffix_imp_sublist sublist_order.order_trans)
    with h(3) bound have "length h \<le> int_max_str_digits" using sublist_digit_run by fastforce
    with py_int_digits[OF h(2,3)] obtain n where "py_int h = Inr n" by blast
    with g h Some show ?thesis by (simp add: collection_record_def group_def Let_def)
  qed
qed

text \<open>
  Claim C8, amended. The parser returns a list of records for every output in which no
  run of consecutive decimal digits is longer than the interpreter's limit for
  \<^verbatim>\<open>int\<close>: the only operation of the parser that can raise is \<^verbatim>\<open>int\<close>, it is applied only to
  texts the patterns captured with \<^verbatim>\<open>\d+\<close>, and such a text is a run of digits of the output.
\<close>

theorem parse_returns_on_bounded_digits:
  assumes "longest_digit_run output \<le> int_max_str_digits"
  shows "\<exists>records. parse_pytest_output output repo_path = Inr records"
proof -
  from collect_total[of "findall error_block_pattern output" block_record] block_record_total[OF assms]
  obtain e1 where e1: "collect block_record (findall error_block_pattern output) = Inr e1" by blast
  from collect_total[of "findall collection_pattern output" collection_record] collection_record_total[OF assms]
  obtain e3 where e3: "collect collection_record (findall collection_pattern output) = Inr e3" by blast
  from e1 e3 show ?thesis by (simp add: parse_pytest_output_def Let_def)
qed


theorem parse_returns_on_bounded_digits_witness:
  "longest_digit_run ''_____ t _____a.py:12'' \<le> int_max_str_digits \<and>
   (\<exists>records. parse_pytest_output ''_____ t _____a.py:12'' ''repo'' = Inr records)"
proof -
  have h: "longest_digit_run ''_____ t _____a.py:12'' \<le> int_max_str_digits"
    by (simp add: longest_digit_run_def int_max_str_digits_def py_isdigit_def)
  from parse_returns_on_bounded_digits[OF h] h show ?thesis by blast
qed

text \<open>Runs of one character, for an output too long to evaluate step by step.\<close>

lemma rep_greedy_replicate:
  "in_cls c x \<Longrightarrow> n \<le> m \<Longrightarrow> k (p + m, []) \<noteq> None \<Longrightarrow>
   rep_greedy c n p (replicate m x) k = k (p + m, [])"
proof (induction m arbitrary: n p)
  case 0
  then show ?case by simp
next
  case (Suc m)
  from Suc.prems have "k (Suc p + m, []) \<noteq> None" by simp
  with Suc.IH[of "n - 1" "Suc p"] Suc.prems have "rep_greedy c (n - 1) (Suc p) (replicate m x) k = k (Suc p + m, [])"
    by simp
  with Suc.prems show ?case by (auto split: option.splits)
qed

lemma rep_lazy_replicate:
  "x \<noteq> CHR ''_'' \<Longrightarrow>
   rep_lazy DotAll 0 p (replicate m x)
     (\<lambda>st. match_at (Ahead (Alt (Rep (Lit CHR ''_'') True 5) Eos)) st (G st) K) =
   K (p + m, []) (G (p + m, []))"
proof (induction m arbitrary: p)
  case 0
  show ?case by simp
next
  case (Suc m)
  from Suc.IH[OF Suc.prems, of "Suc p"] Suc.prems show ?case by simp
qed

lemma findall_from_skip: "k = length s \<Longrightarrow> findall_from r p k s = findall_from r (p + length s) 0 []"
  by (induction s arbitrary: p k) auto

lemma block_ahead_fails:
  "x \<noteq> CHR ''_'' \<Longrightarrow>
   match_at (Ahead (Alt (Rep (Lit CHR ''_'') True 5) Eos)) (q, x # xs) gs K = None"
  by simp

lemma block_ahead_at_end:
  "match_at (Ahead (Alt (Rep (Lit CHR ''_'') True 5) Eos)) (q, []) gs K = K (q, []) gs"
  by simp

lemma long_match:
  "match_here error_block_pattern (0, long_line_number) =
     Some ((4319, []), [''t'', ''a.py:'' @ replicate 4301 CHR ''1''])"
  by (simp add: long_line_number_def match_here_def error_block_pattern_def py_isspace_def
      rep_lazy_replicate block_ahead_fails block_ahead_at_end
      del: match_at.simps(5) match_at.simps(7))

lemma long_blocks:
  "findall error_block_pattern long_line_number = [[''t'', ''a.py:'' @ replicate 4301 CHR ''1'']]"
proof -
  let ?rest = "''____ t _____a.py:'' @ replicate 4301 CHR ''1''"
  have l: "long_line_number = CHR ''_'' # ?rest" "length ?rest = 4318"
    by (simp_all add: long_line_number_def)
  have m: "match_here error_block_pattern (0, CHR ''_'' # ?rest) =
     Some ((4319, []), [''t'', ''a.py:'' @ replicate 4301 CHR ''1''])"
    using long_match unfolding l(1) .
  have e: "match_here error_block_pattern (4319, []) = None"
    by (simp add: match_here_def error_block_pattern_def)
  have "findall error_block_pattern long_line_number =
        findall_from error_block_pattern 0 0 (CHR ''_'' # ?rest)"
    unfolding l(1) findall_def ..
  also have "\<dots> = [''t'', ''a.py:'' @ replicate 4301 CHR ''1''] #
                    findall_from error_block_pattern (Suc 0) 4318 ?rest"
    unfolding findall_from.simps m by simp
  also have "findall_from error_block_pattern (Suc 0) 4318 ?rest =
             findall_from error_block_pattern (Suc 0 + length ?rest) 0 []"
    using l(2) by (intro findall_from_skip) simp
  also have "\<dots> = []" unfolding l(2) using e by simp
  finally show ?thesis .
qed

lemma long_search:
  "re_search file_line_pattern (''a.py:'' @ replicate 4301 CHR ''1'') =
     Some [''a.py'', replicate 4301 CHR ''1'']"
  by (simp add: re_search_def match_here_def file_line_pattern_def py_isword_def py_isdigit_def
      rep_greedy_replicate)

lemma long_int: "py_int (replicate 4301 CHR ''1'') = Inl ValueError"
  by (simp add: py_int_def int_max_str_digits_def py_isdigit_def list_all_iff)

text \<open>
  Claim C8, as stated, fails. The output \<open>long_line_number\<close> is a failure block whose
  \<^verbatim>\<open>path.py:\<close> is followed by 4301 digits; the pattern captures them and \<^verbatim>\<open>int\<close> raises
  \<^verbatim>\<open>ValueError\<close>, which the parser does not catch.
\<close>

theorem parse_raises_counterexample:
  "parse_pytest_output long_line_number ''repo'' = Inl ValueError"
  by (simp add: parse_pytest_output_def long_blocks block_record_def group_def long_search[simplified] long_int Let_def)

end
